theory Spec2Isabelle
  imports Complex_Main "HOL-Library.Char_ord" "HOL-Library.List_Lexorder"
    "HOL-Library.Product_Lexorder"
begin

section \<open>Data model\<close>

text \<open>
  A JavaScript array of strings can hold \<open>undefined\<close> at run time (the value of a
  one-element tag is \<open>tag[1]\<close>): an element is \<open>Some s\<close> for the string \<open>s\<close> and
  \<open>None\<close> for \<open>undefined\<close>.
\<close>

type_synonym jsstring = "string option"

record event =
  ev_id :: string
  pubkey :: string
  created_at :: int
  kind :: nat
  tags :: "string list list"
  content :: string
  sig :: string

text \<open>
  A filter is a conjunction of optional constraints; an absent key is \<open>None\<close>. The tag
  constraints (\<open>#e\<close>, \<open>#p\<close>, ...) are kept as an association list from the key, written
  with its \<open>#\<close>, to the accepted values. The key \<open>search\<close> is left out: neither the
  sources nor the specification give it a meaning.
\<close>

record filter =
  ids :: "jsstring list option"
  authors :: "jsstring list option"
  kinds :: "nat list option"
  tag_filters :: "(string \<times> jsstring list) list"
  since :: "int option"
  until :: "int option"
  limit :: "nat option"

definition empty_filter :: filter where
  "empty_filter = \<lparr>ids = None, authors = None, kinds = None, tag_filters = [],
     since = None, until = None, limit = None\<rparr>"

text \<open>
  What a call throws or a promise is rejected with: the \<open>Error\<close> of the \<open>default\<close>
  branch of \<open>compile\<close>, or a \<open>TypeError\<close> (a property read on \<open>undefined\<close>, an
  invalid url).
\<close>

datatype error = UnableToConvert | TypeError

text \<open>
  An optional key of a JavaScript object: the object does not have the key, or it has
  the key with the value \<open>undefined\<close>, or it has the key with a value. Reading the key
  gives \<open>undefined\<close> (\<open>None\<close>) in the first two cases; in an object literal
  \<open>{k: d, ...o}\<close> the spread copies the key of \<open>o\<close> over the default \<open>d\<close> in the last
  two cases, \<open>undefined\<close> included.
\<close>

datatype 'a key = Absent | Undefined | Value 'a

definition read_key :: "'a key \<Rightarrow> 'a option" where
  "read_key k = (case k of Absent \<Rightarrow> None | Undefined \<Rightarrow> None | Value v \<Rightarrow> Some v)"

definition spread_over :: "'a \<Rightarrow> 'a key \<Rightarrow> 'a option" where
  "spread_over d k = (case k of Absent \<Rightarrow> Some d | Undefined \<Rightarrow> None | Value v \<Rightarrow> Some v)"

section \<open>packages/app/src/core.ts\<close>

text \<open>\<open>ctx.app\<close>: the three settings that \<open>subscribe\<close> and \<open>load\<close> read.\<close>

record app_ctx =
  requestDelay :: nat
  ctx_authTimeout :: nat
  requestTimeout :: nat

text \<open>
  \<open>PartialSubscribeRequest\<close>: \<open>filters\<close> is required, every other key is optional.
  The handlers are not part of the record: they are attached to the subscription's
  emitter by the caller.
\<close>

record 'f partial_request =
  filters :: "'f list"
  relays :: "string list key"
  delay :: "nat key"
  timeout :: "nat key"
  authTimeout :: "nat key"
  closeOnEose :: "bool key"

text \<open>
  The object that \<open>subscribe\<close> hands to \<open>baseSubscribe\<close> of the net package, as
  \<open>baseSubscribe\<close> reads it: \<open>None\<close> is \<open>undefined\<close>.
\<close>

record 'f base_request =
  b_relays :: "string list option"
  b_filters :: "'f list"
  b_delay :: "nat option"
  b_timeout :: "nat option"
  b_authTimeout :: "nat option"
  b_closeOnEose :: "bool option"

text \<open>
  What a call of \<open>subscribe\<close> has done when it returns: one call of \<open>baseSubscribe\<close>
  with \<open>sub_request\<close>, and one callback handed to \<open>setTimeout\<close>, which emits
  \<open>sub_timer\<close> (relay url and event, in order) on the subscription's emitter when the
  timer fires. The body of \<open>subscribe\<close> itself emits nothing.
\<close>

record ('f, 'e) subscription =
  sub_request :: "'f base_request"
  sub_timer :: "(string \<times> 'e) list"

definition LOCAL_RELAY_URL :: string where
  "LOCAL_RELAY_URL = ''local://welshman.relay''"

text \<open>JavaScript truthiness of an optional boolean key.\<close>

definition truthy :: "bool key \<Rightarrow> bool" where
  "truthy b = (b = Value True)"

text \<open>
  The loop of \<open>subscribe\<close> (lines 43 to 59). \<open>request.filters.splice(0)\<close> empties the
  array and the loop runs over what was removed; \<open>kept\<close> is \<open>request.filters\<close> as it is
  pushed back, \<open>events\<close> the local array. \<open>getFilterResultCardinality\<close> and
  \<open>repository.query\<close> belong to the util package and are parameters. On a filter
  whose bound is met the loop pushes the results and leaves by \<open>break\<close>.
\<close>

fun shortcut_loop ::
  "('f \<Rightarrow> nat option) \<Rightarrow> ('f list \<Rightarrow> 'e list) \<Rightarrow> 'f list \<Rightarrow> 'f list \<Rightarrow> 'e list
    \<Rightarrow> 'f list \<times> 'e list" where
  "shortcut_loop getFilterResultCardinality query [] kept events = (kept, events)"
| "shortcut_loop getFilterResultCardinality query (f # rest) kept events =
     (case getFilterResultCardinality f of
        None \<Rightarrow> shortcut_loop getFilterResultCardinality query rest (kept @ [f]) events
      | Some cardinality \<Rightarrow>
          (let results = query [f] in
           if length results = cardinality then (kept, events @ results)
           else shortcut_loop getFilterResultCardinality query rest (kept @ [f]) events))"

definition subscribe ::
  "app_ctx \<Rightarrow> ('f \<Rightarrow> nat option) \<Rightarrow> ('f list \<Rightarrow> 'e list) \<Rightarrow> 'f partial_request
    \<Rightarrow> ('f, 'e) subscription" where
  "subscribe ctx getFilterResultCardinality query request =
     (let (fs, events) =
            (if truthy (closeOnEose request)
             then shortcut_loop getFilterResultCardinality query (filters request) [] []
             else (filters request, []));
          timeout0 = (if truthy (closeOnEose request) then requestTimeout ctx else 0)
      in \<lparr>sub_request =
            \<lparr>b_relays = spread_over [] (relays request),
             b_filters = fs,
             b_delay = spread_over (requestDelay ctx) (delay request),
             b_timeout = spread_over timeout0 (timeout request),
             b_authTimeout = spread_over (ctx_authTimeout ctx) (authTimeout request),
             b_closeOnEose = read_key (closeOnEose request)\<rparr>,
          sub_timer = map (Pair LOCAL_RELAY_URL) events\<rparr>)"

text \<open>
  A filter is fully cached when its cardinality is bounded and the repository already
  answers it with that many events.
\<close>

definition fully_cached :: "('f \<Rightarrow> nat option) \<Rightarrow> ('f list \<Rightarrow> 'e list) \<Rightarrow> 'f \<Rightarrow> bool" where
  "fully_cached getFilterResultCardinality query f =
     (case getFilterResultCardinality f of
        None \<Rightarrow> False
      | Some cardinality \<Rightarrow> length (query [f]) = cardinality)"

text \<open>
  What the subscription's emitter emits: \<open>SubscriptionEvent.Event\<close> with the relay url
  and the event, or \<open>SubscriptionEvent.Complete\<close>.
\<close>

datatype 'e emission = Event string 'e | Complete

text \<open>
  \<open>load\<close> (lines 78 to 85). The object literal
  \<open>{closeOnEose: true, timeout: ctx.app.requestTimeout, ...request}\<close> lists the defaults
  first: a key that the request has wins over them, also when it holds \<open>undefined\<close>.
\<close>

definition load_request :: "app_ctx \<Rightarrow> 'f partial_request \<Rightarrow> 'f partial_request" where
  "load_request ctx request =
     request\<lparr>closeOnEose :=
               (case closeOnEose request of
                  Absent \<Rightarrow> Value True | Undefined \<Rightarrow> Undefined | Value b \<Rightarrow> Value b),
             timeout :=
               (case timeout request of
                  Absent \<Rightarrow> Value (requestTimeout ctx) | Undefined \<Rightarrow> Undefined
                | Value t \<Rightarrow> Value t)\<rparr>"

text \<open>
  The two handlers of \<open>load\<close>: \<open>acc\<close> is the local array \<open>events\<close>, \<open>resolved\<close> the
  promise. \<open>resolve\<close> settles a promise once and does nothing afterwards; the promise
  holds the array \<open>events\<close>, whose content at the moment of \<open>resolve\<close> is recorded.
\<close>

record 'e load_state =
  acc :: "'e list"
  resolved :: "'e list option"

fun load_handler :: "'e load_state \<Rightarrow> 'e emission \<Rightarrow> 'e load_state" where
  "load_handler s (Event url e) = s\<lparr>acc := acc s @ [e]\<rparr>"
| "load_handler s Complete =
     (case resolved s of None \<Rightarrow> s\<lparr>resolved := Some (acc s)\<rparr> | Some v \<Rightarrow> s)"

text \<open>
  The emissions that reach the handlers of \<open>load\<close>. The handlers are attached in the
  same synchronous run as \<open>subscribe\<close>, so the timer callback runs after them, once, in
  one piece; \<open>before\<close> and \<open>after\<close> are what the network subscription emits before and
  after the timer fires.
\<close>

definition load_trace ::
  "('f, 'e) subscription \<Rightarrow> 'e emission list \<Rightarrow> 'e emission list \<Rightarrow> 'e emission list" where
  "load_trace sub before after =
     before @ map (\<lambda>(url, e). Event url e) (sub_timer sub) @ after"

definition load ::
  "app_ctx \<Rightarrow> ('f \<Rightarrow> nat option) \<Rightarrow> ('f list \<Rightarrow> 'e list) \<Rightarrow> 'f partial_request
    \<Rightarrow> 'e emission list \<Rightarrow> 'e emission list \<Rightarrow> 'e list option" where
  "load ctx getFilterResultCardinality query request before after =
     (let sub = subscribe ctx getFilterResultCardinality query (load_request ctx request)
      in resolved (foldl load_handler \<lparr>acc = [], resolved = None\<rparr> (load_trace sub before after)))"

text \<open>The events of a list of emissions, in order.\<close>

fun payloads :: "'e emission list \<Rightarrow> 'e list" where
  "payloads [] = []"
| "payloads (Event url e # xs) = e # payloads xs"
| "payloads (Complete # xs) = payloads xs"

section \<open>unnamed/part_004: relay urls\<close>

definition BOGUS_RELAY_URL :: string where
  "BOGUS_RELAY_URL = ''bogus://welshman.relay''"

text \<open>
  \<open>String.prototype.toLowerCase\<close>. A string is a list of bytes. On a string of ASCII
  bytes (codes below 128) the letters \<open>A\<close> to \<open>Z\<close> (codes 65 to 90) move to \<open>a\<close> to
  \<open>z\<close> and every other byte stays. On a string with other bytes the built-in also
  lowers letters outside ASCII; what it returns there is the parameter \<open>lowerOther\<close>.
\<close>

definition is_ascii :: "char \<Rightarrow> bool" where
  "is_ascii c = ((of_char c :: nat) < 128)"

definition is_upper :: "char \<Rightarrow> bool" where
  "is_upper c = (65 \<le> (of_char c :: nat) \<and> (of_char c :: nat) \<le> 90)"

definition toLowerCase_char :: "char \<Rightarrow> char" where
  "toLowerCase_char c = (if is_upper c then char_of ((of_char c :: nat) + 32) else c)"

definition toLowerCase :: "(string \<Rightarrow> string) \<Rightarrow> string \<Rightarrow> string" where
  "toLowerCase lowerOther s =
     (if list_all is_ascii s then map toLowerCase_char s else lowerOther s)"

definition startsWith :: "string \<Rightarrow> string \<Rightarrow> bool" where
  "startsWith p s = (take (length p) s = p)"

text \<open>
  \<open>normalizeRelayUrl\<close> (lines 28 to 43). \<open>normalizeUrl\<close> (called with
  \<open>{stripHash: true, stripAuthentication: false}\<close>) and \<open>stripProtocol\<close> belong to the
  lib package and are parameters. The call of \<open>normalizeUrl\<close> on line 32 is not
  guarded: when it throws, \<open>normalizeRelayUrl\<close> throws the same error (\<open>Inl\<close>).
  \<open>stripProtocol\<close> is a replacement in a string and does not throw. The prefix for
  \<open>allowInsecure\<close> is the match of \<open>/^wss?:\/\//\<close>, if there is one.
\<close>

definition normalizeRelayUrl ::
  "(string \<Rightarrow> error + string) \<Rightarrow> (string \<Rightarrow> string) \<Rightarrow> (string \<Rightarrow> string) \<Rightarrow> bool
    \<Rightarrow> string \<Rightarrow> error + string" where
  "normalizeRelayUrl normalizeUrl stripProtocol lowerOther allowInsecure url =
     (let prefix =
            (if allowInsecure
             then (if startsWith ''wss://'' url then ''wss://''
                   else if startsWith ''ws://'' url then ''ws://''
                   else ''wss://'')
             else ''wss://'')
      in case normalizeUrl url of
           Inl e \<Rightarrow> Inl e
         | Inr url1 \<Rightarrow>
             (let url2 = toLowerCase lowerOther (stripProtocol url1);
                  url3 = (if CHR ''/'' \<notin> set url2 then url2 @ ''/'' else url2)
              in Inr (prefix @ url3)))"

section \<open>packages/feeds: feeds and the feed compiler\<close>

datatype scope = Self | Global | Follows | Followers

record dynamic_filter = filter +
  scopes :: "scope list option"
  min_wot :: "rat option"
  max_wot :: "rat option"
  until_ago :: "int option"
  since_ago :: "int option"

record dvm_item =
  dvm_kind :: nat
  dvm_tags :: "string list list option"

text \<open>
  The type \<open>Feed\<close> of unnamed/part_002: an array whose head is the \<open>FeedType\<close> and
  whose tail holds the arguments. \<open>getSubFeeds\<close> is not among the sources; by the
  type declarations and by \<open>compile\<close> itself the sub-feeds of a relay feed are the
  elements after the relay list, and those of a set operation are all its elements.
\<close>

datatype feed =
    DifferenceFeed "feed list"
  | IntersectionFeed "feed list"
  | SymmetricDifferenceFeed "feed list"
  | UnionFeed "feed list"
  | FilterFeed "dynamic_filter list"
  | RelayFeed "string list" "feed list"
  | ListFeed "string list"
  | LOLFeed "string list"
  | DVMFeed "dvm_item list"

record request_item =
  item_relays :: "string list"
  item_filters :: "filter list"

text \<open>
  The callbacks of \<open>FeedOptions\<close> and the helpers of the util and lib packages that
  the compiler calls and that are not among the sources.
  \<open>opt_request\<close> and \<open>opt_requestDvm\<close> give the events that the callback hands to
  \<open>onEvent\<close> before its promise resolves; \<open>getIdFilters\<close> is the helper on an
  array of strings, as it is declared; \<open>json_id_pubkey\<close> is
  \<open>tryCatch(() => JSON.parse(v)) || {}\<close> read at \<open>id\<close> and \<open>pubkey\<close>, for the
  value \<open>v\<close> of the \<open>request\<close> tag; \<open>tags_relays\<close> is \<open>Tags.relays().valueOf()\<close>.
\<close>

record feed_options =
  opt_request :: "filter list \<Rightarrow> event list"
  opt_requestDvm :: "dvm_item \<Rightarrow> event list"
  getPubkeysForScope :: "scope \<Rightarrow> jsstring list"
  getPubkeysForWotRange :: "rat \<Rightarrow> rat \<Rightarrow> jsstring list"
  now :: int
  getIdFilters :: "string list \<Rightarrow> filter list"
  unionFilters :: "filter list \<Rightarrow> filter list"
  intersectFilters :: "filter list list \<Rightarrow> filter list"
  json_id_pubkey :: "jsstring \<Rightarrow> jsstring \<times> jsstring"
  tags_relays :: "string list list \<Rightarrow> string list"

text \<open>
  Modelled from the spec: \<open>uniq\<close> of the lib package is not among the sources. The
  relays of a request item are a set of urls (section 3); \<open>uniq\<close> removes the
  duplicates of an array and keeps the first occurrence of every element, the order
  of a JavaScript \<open>Set\<close>.
\<close>

fun uniq :: "'a list \<Rightarrow> 'a list" where
  "uniq [] = []"
| "uniq (x # xs) = x # uniq (filter (\<lambda>y. y \<noteq> x) xs)"

text \<open>
  Modelled from the spec: the classes \<open>Tag\<close> and \<open>Tags\<close> of the util package are
  not among the sources. A tag is an ordered sequence of strings (section 3), and
  \<open>Tags\<close> wraps an array of tags; the methods that the compiler calls are modelled
  on the array itself, so that \<open>exists()\<close> is non-emptiness and \<open>valueOf()\<close> the
  array. The key of a tag is its first element.
\<close>

definition tag_key :: "string list \<Rightarrow> jsstring" where
  "tag_key t = (case t of [] \<Rightarrow> None | k # rest \<Rightarrow> Some k)"

text \<open>
  Modelled from the spec: \<open>Tag.value()\<close>, the second element of a tag,
  \<open>undefined\<close> when the tag has none.
\<close>

definition tag_value :: "string list \<Rightarrow> jsstring" where
  "tag_value t = (case t of k # v # rest \<Rightarrow> Some v | _ \<Rightarrow> None)"

text \<open>Modelled from the spec: \<open>Tags.fromEvents\<close>, the tags of the events in order.\<close>

definition fromEvents :: "event list \<Rightarrow> string list list" where
  "fromEvents events = concat (map tags events)"

text \<open>
  Modelled from the spec: \<open>Tags.filterByKey\<close>, the tags whose key is one of the
  given keys.
\<close>

definition filterByKey :: "string list \<Rightarrow> string list list \<Rightarrow> string list list" where
  "filterByKey keys ts = filter (\<lambda>t. tag_key t \<in> Some ` set keys) ts"

text \<open>
  Modelled from the spec: \<open>Tags.values(key)\<close>, the values of the tags with the
  given key; \<open>Tags.values()\<close> without a key is \<open>map tag_value\<close>.
\<close>

definition tag_values :: "string \<Rightarrow> string list list \<Rightarrow> jsstring list" where
  "tag_values key ts = map tag_value (filter (\<lambda>t. tag_key t = Some key) ts)"

text \<open>
  Modelled from the spec: \<open>Tags.rejectByValue\<close>, the tags whose value is none of
  the given values.
\<close>

definition rejectByValue :: "jsstring list \<Rightarrow> string list list \<Rightarrow> string list list" where
  "rejectByValue vs ts = filter (\<lambda>t. tag_value t \<notin> set vs) ts"

text \<open>Modelled from the spec: \<open>Tags.get\<close>, the first tag with the given key.\<close>

definition get_tag :: "string \<Rightarrow> string list list \<Rightarrow> string list option" where
  "get_tag key ts = find (\<lambda>t. tag_key t = Some key) ts"

text \<open>
  Modelled from the spec: \<open>getIdFilters\<close> of the util package is not among the
  sources. It is declared on an array of strings and reads every element as a string
  (it matches the element against the pattern of an address), so it throws a
  \<open>TypeError\<close> when an element is \<open>undefined\<close>; on an array of strings it is the
  parameter of \<open>feed_options\<close>.
\<close>

definition call_getIdFilters :: "feed_options \<Rightarrow> jsstring list \<Rightarrow> error + filter list" where
  "call_getIdFilters opts vs =
     (if None \<in> set vs then Inl TypeError else Inr (getIdFilters opts (map the vs)))"

text \<open>
  \<open>_getFiltersFromTags\<close> (lines 173 to 199). The call of \<open>getIdFilters\<close> on line 188
  is not guarded: when it throws, \<open>_getFiltersFromTags\<close> throws the same error.
\<close>

definition getFiltersFromTags ::
  "feed_options \<Rightarrow> string list list \<Rightarrow> error + filter list" where
  "getFiltersFromTags opts ts =
     (let ttags = tag_values ''t'' ts;
          ptags = tag_values ''p'' ts;
          eatags = map tag_value (filterByKey [''e'', ''a''] ts);
          filters1 = (if ttags \<noteq> [] then [empty_filter\<lparr>tag_filters := [(''#t'', ttags)]\<rparr>] else []);
          filters2 = (if ptags \<noteq> [] then filters1 @ [empty_filter\<lparr>authors := Some ptags\<rparr>]
                      else filters1)
      in case (if eatags \<noteq> []
               then (case call_getIdFilters opts eatags of
                       Inl e \<Rightarrow> Inl e | Inr idFilters \<Rightarrow> Inr (filters2 @ idFilters))
               else Inr filters2) of
           Inl e \<Rightarrow> Inl e
         | Inr filters3 \<Rightarrow>
             Inr (if length filters3 = 0 then filters3 @ [empty_filter\<lparr>authors := Some []\<rparr>]
                  else filters3))"



text \<open>\<open>_compileFilter\<close> (lines 145 to 171).\<close>

definition compileFilter :: "feed_options \<Rightarrow> dynamic_filter \<Rightarrow> filter" where
  "compileFilter opts df =
     (let f0 = filter.truncate df;
          f1 = (case scopes df of
                  Some ss \<Rightarrow>
                    (if authors f0 = None
                     then f0\<lparr>authors := Some (concat (map (getPubkeysForScope opts) ss))\<rparr>
                     else f0)
                | None \<Rightarrow> f0);
          f2 = (if min_wot df \<noteq> None \<or> max_wot df \<noteq> None
                then (let lo = (case min_wot df of None \<Rightarrow> 0 | Some w \<Rightarrow> w);
                          hi = (case max_wot df of
                                  None \<Rightarrow> 1 | Some w \<Rightarrow> if w = 0 then 1 else w);
                          wot = getPubkeysForWotRange opts lo hi
                      in case authors f1 of
                           Some a \<Rightarrow> f1\<lparr>authors := Some (filter (\<lambda>p. p \<in> set wot) a)\<rparr>
                         | None \<Rightarrow> f1\<lparr>authors := Some wot\<rparr>)
                else f1);
          f3 = (case until_ago df of None \<Rightarrow> f2 | Some a \<Rightarrow> f2\<lparr>until := Some (now opts - a)\<rparr>);
          f4 = (case since_ago df of None \<Rightarrow> f3 | Some a \<Rightarrow> f3\<lparr>since := Some (now opts - a)\<rparr>)
      in f4)"

text \<open>
  \<open>_compileLists\<close> (lines 102 to 116). The addresses of a list feed are strings, so
  the call of \<open>getIdFilters\<close> on line 107 is the parameter itself.
\<close>

definition compileLists :: "feed_options \<Rightarrow> string list \<Rightarrow> error + request_item" where
  "compileLists opts addresses =
     (let events = opt_request opts (getIdFilters opts addresses)
      in case getFiltersFromTags opts (fromEvents events) of
           Inl e \<Rightarrow> Inl e
         | Inr fs \<Rightarrow> Inr \<lparr>item_relays = [], item_filters = fs\<rparr>)"

text \<open>
  \<open>_compileDvms\<close> (lines 118 to 141); \<open>dvm_response_tags\<close> is what one call of the
  \<open>onEvent\<close> handler pushes.
\<close>

definition dvm_response_tags :: "feed_options \<Rightarrow> event \<Rightarrow> string list list" where
  "dvm_response_tags opts e =
     (let ts = tags e;
          (i, p) = json_id_pubkey opts
                     (case get_tag ''request'' ts of None \<Rightarrow> None | Some t \<Rightarrow> tag_value t)
      in rejectByValue [i, p] (filterByKey [''t'', ''p'', ''e'', ''a''] ts))"

definition compileDvms :: "feed_options \<Rightarrow> dvm_item list \<Rightarrow> error + request_item" where
  "compileDvms opts requests =
     (let responseTags =
            concat (map (\<lambda>r. map (dvm_response_tags opts) (opt_requestDvm opts r)) requests);
          mergedTags = concat responseTags
      in case getFiltersFromTags opts mergedTags of
           Inl e \<Rightarrow> Inl e
         | Inr fs \<Rightarrow> Inr \<lparr>item_relays = tags_relays opts mergedTags, item_filters = fs\<rparr>)"

text \<open>
  The relays of \<open>_compileIntersection\<close> (lines 86 to 97), from the compiled items.
\<close>

definition intersection_relays :: "request_item list \<Rightarrow> string list" where
  "intersection_relays items =
     (let relays0 = uniq (concat (map item_relays items));
          hasRelays = (length relays0 > 0);
          relays1 = foldl (\<lambda>rs item.
                       if length (item_relays item) > 0
                       then filter (\<lambda>relay. relay \<in> set (item_relays item)) rs
                       else rs) relays0 items
      in if hasRelays \<and> length relays1 = 0 then relays1 @ [BOGUS_RELAY_URL] else relays1)"

text \<open>
  The claim's words for the same list: the relays that every item with a non-empty
  relay list has contributed.
\<close>

definition common_relays :: "request_item list \<Rightarrow> string set" where
  "common_relays items =
     (\<Inter>item \<in> set (filter (\<lambda>i. item_relays i \<noteq> []) items). set (item_relays item))"

text \<open>
  \<open>compile\<close>, \<open>_compileUnion\<close> and \<open>_compileIntersection\<close>. A rejected promise
  is \<open>Inl\<close>. The first argument of \<open>compile\<close> says whether the call has its receiver:
  \<open>this.compile(feed)\<close> has (\<open>_compileUnion\<close> calls it so, inside an arrow function),
  while \<open>feeds.map(this.compile)\<close> of \<open>_compileIntersection\<close> hands the method over
  without one, and a class body is strict code, so \<open>this\<close> is \<open>undefined\<close> in those
  calls and the first read of a property of \<open>this\<close> throws a \<open>TypeError\<close>. The
  filter branch reads \<open>this\<close> only inside the arrow function that \<open>map\<close> calls for
  each filter, and the \<open>default\<close> branch never reads it.
  \<open>compile_all\<close> is \<open>Promise.all\<close> over the calls, in the order of the list; of
  several rejections it reports the first of the list, and \<open>_compileUnion\<close> collects
  the relays and filters of the items in the order of the list. The callbacks of
  \<open>FeedOptions\<close> are taken to resolve.
\<close>

fun compile :: "feed_options \<Rightarrow> bool \<Rightarrow> feed \<Rightarrow> error + request_item"
  and compile_all :: "feed_options \<Rightarrow> bool \<Rightarrow> feed list \<Rightarrow> error + request_item list"
  and compileUnion :: "feed_options \<Rightarrow> feed list \<Rightarrow> error + request_item"
  and compileIntersection :: "feed_options \<Rightarrow> feed list \<Rightarrow> error + request_item" where
  "compile opts this (UnionFeed feeds) =
     (if this then compileUnion opts feeds else Inl TypeError)"
| "compile opts this (IntersectionFeed feeds) =
     (if this then compileIntersection opts feeds else Inl TypeError)"
| "compile opts this (RelayFeed urls feeds) =
     (if this
      then (case compileUnion opts feeds of
              Inl e \<Rightarrow> Inl e
            | Inr item \<Rightarrow>
                Inr \<lparr>item_relays = item_relays item @ urls, item_filters = item_filters item\<rparr>)
      else Inl TypeError)"
| "compile opts this (FilterFeed dfs) =
     (if this \<or> dfs = []
      then Inr \<lparr>item_relays = [], item_filters = map (compileFilter opts) dfs\<rparr>
      else Inl TypeError)"
| "compile opts this (ListFeed addresses) =
     (if this then compileLists opts addresses else Inl TypeError)"
| "compile opts this (DVMFeed requests) =
     (if this then compileDvms opts requests else Inl TypeError)"
| "compile opts this (DifferenceFeed feeds) = Inl UnableToConvert"
| "compile opts this (SymmetricDifferenceFeed feeds) = Inl UnableToConvert"
| "compile opts this (LOLFeed addresses) = Inl UnableToConvert"
| "compile_all opts this [] = Inr []"
| "compile_all opts this (feed # feeds) =
     (case compile opts this feed of
        Inl e \<Rightarrow> Inl e
      | Inr item \<Rightarrow>
          (case compile_all opts this feeds of
             Inl e \<Rightarrow> Inl e
           | Inr items \<Rightarrow> Inr (item # items)))"
| "compileUnion opts feeds =
     (case compile_all opts True feeds of
        Inl e \<Rightarrow> Inl e
      | Inr items \<Rightarrow>
          Inr \<lparr>item_relays = uniq (concat (map item_relays items)),
               item_filters = unionFilters opts (concat (map item_filters items))\<rparr>)"
| "compileIntersection opts feeds =
     (case compile_all opts False feeds of
        Inl e \<Rightarrow> Inl e
      | Inr items \<Rightarrow>
          Inr \<lparr>item_relays = intersection_relays items,
               item_filters = intersectFilters opts (map item_filters items)\<rparr>)"

text \<open>
  \<open>canCompile\<close> (lines 18 to 31). \<open>every(this.canCompile)\<close> hands the method over
  without a receiver as well, so the calls on the sub-feeds run with \<open>this\<close>
  undefined: there the set-operation branch throws at \<open>this.canCompile\<close>, and the
  other branches do not read \<open>this\<close>. \<open>every\<close> stops at the first \<open>false\<close>.
\<close>

fun canCompile :: "bool \<Rightarrow> feed \<Rightarrow> error + bool"
  and every_canCompile :: "feed list \<Rightarrow> error + bool" where
  "canCompile this (RelayFeed urls feeds) =
     (if this then every_canCompile feeds else Inl TypeError)"
| "canCompile this (UnionFeed feeds) =
     (if this then every_canCompile feeds else Inl TypeError)"
| "canCompile this (IntersectionFeed feeds) =
     (if this then every_canCompile feeds else Inl TypeError)"
| "canCompile this (FilterFeed dfs) = Inr True"
| "canCompile this (ListFeed addresses) = Inr True"
| "canCompile this (DVMFeed requests) = Inr True"
| "canCompile this (DifferenceFeed feeds) = Inr False"
| "canCompile this (SymmetricDifferenceFeed feeds) = Inr False"
| "canCompile this (LOLFeed addresses) = Inr False"
| "every_canCompile [] = Inr True"
| "every_canCompile (feed # feeds) =
     (case canCompile False feed of
        Inl e \<Rightarrow> Inl e
      | Inr ok \<Rightarrow> if ok then every_canCompile feeds else Inr False)"

section \<open>The repository\<close>

text \<open>
  Modelled from the spec: the class \<open>Repository\<close> of the util package is not among
  the sources (only its use in core.ts and its declaration in the documentation are).
  The definitions of this section follow sections 3 and 4.4 of the specification. The
  kind ranges are the protocol's: kinds 0 and 3 and the kinds from 10000 up to 19999
  are replaceable, the kinds from 30000 up to 39999 are addressable, and kind 5 is a
  deletion.
\<close>

definition isReplaceableKind :: "nat \<Rightarrow> bool" where
  "isReplaceableKind k = (k = 0 \<or> k = 3 \<or> (10000 \<le> k \<and> k < 20000))"

text \<open>Modelled from the spec: the addressable kind range of the protocol.\<close>

definition isAddressableKind :: "nat \<Rightarrow> bool" where
  "isAddressableKind k = (30000 \<le> k \<and> k < 40000)"

text \<open>Modelled from the spec: the kind of a deletion event in the protocol.\<close>

definition DELETE :: nat where
  "DELETE = 5"

text \<open>
  Modelled from the spec: the distinguishing tag of an addressable event is the value
  of its first \<open>d\<close> tag, the empty string when there is none.
\<close>

definition d_tag :: "event \<Rightarrow> string" where
  "d_tag e =
     (case find (\<lambda>t. tag_key t = Some ''d'') (tags e) of
        None \<Rightarrow> []
      | Some t \<Rightarrow> (case tag_value t of None \<Rightarrow> [] | Some v \<Rightarrow> v))"

text \<open>
  Modelled from the spec: the identity key is the pubkey and the kind for a
  replaceable kind, and the pubkey, the kind and the distinguishing tag for an
  addressable kind; other events have none.
\<close>

definition identity_key :: "event \<Rightarrow> (nat \<times> string \<times> string) option" where
  "identity_key e =
     (if isReplaceableKind (kind e) then Some (kind e, pubkey e, [])
      else if isAddressableKind (kind e) then Some (kind e, pubkey e, d_tag e)
      else None)"

text \<open>
  Modelled from the spec: the decimal digits of a kind, as an address string
  writes it.
\<close>

function string_of_nat :: "nat \<Rightarrow> string" where
  "string_of_nat n =
     (if n < 10 then [char_of (48 + n)]
      else string_of_nat (n div 10) @ [char_of (48 + n mod 10)])"
  by pat_completeness auto
termination
  by (relation "measure (\<lambda>n. n)") auto

text \<open>
  Modelled from the spec: a deletion names an addressable identity by the string
  \<open>kind:pubkey:d\<close> in an \<open>a\<close> tag, and an event by its id in an \<open>e\<close> tag.
\<close>

definition address :: "event \<Rightarrow> string option" where
  "address e =
     (case identity_key e of
        None \<Rightarrow> None
      | Some (k, p, d) \<Rightarrow> Some (string_of_nat k @ '':'' @ p @ '':'' @ d))"

text \<open>
  Modelled from the spec: of two candidates for one identity key the one with the
  greater \<open>created_at\<close> stays, and on equal \<open>created_at\<close> the one with the
  lexicographically greater id.
\<close>

definition supersedes :: "event \<Rightarrow> event \<Rightarrow> bool" where
  "supersedes a b =
     (created_at b < created_at a \<or> (created_at a = created_at b \<and> ev_id b < ev_id a))"

text \<open>
  Modelled from the spec: the stored events in the order of their acceptance, and
  the tombstones: the ids and the addresses that accepted deletions name.
\<close>

record repository =
  stored :: "event list"
  deleted_ids :: "jsstring list"
  deleted_addresses :: "jsstring list"

text \<open>Modelled from the spec: a repository that has accepted nothing.\<close>

definition empty_repository :: repository where
  "empty_repository = \<lparr>stored = [], deleted_ids = [], deleted_addresses = []\<rparr>"

text \<open>Modelled from the spec: \<open>isDeleted\<close>, the tombstone lookup by id.\<close>

definition isDeleted :: "repository \<Rightarrow> event \<Rightarrow> bool" where
  "isDeleted r e = (Some (ev_id e) \<in> set (deleted_ids r))"

text \<open>
  Modelled from the spec: \<open>isDeletedByAddress\<close>, the tombstone lookup by
  addressable identity.
\<close>

definition isDeletedByAddress :: "repository \<Rightarrow> event \<Rightarrow> bool" where
  "isDeletedByAddress r e = (address e \<noteq> None \<and> address e \<in> set (deleted_addresses r))"

text \<open>
  Modelled from the spec: accepting an event stores it; an accepted deletion also
  tombstones what its \<open>e\<close> and \<open>a\<close> tags name, and removes no record.
\<close>

definition accept :: "repository \<Rightarrow> event \<Rightarrow> repository" where
  "accept r e =
     (let r1 = r\<lparr>stored := stored r @ [e]\<rparr>
      in if kind e = DELETE
         then r1\<lparr>deleted_ids := deleted_ids r1 @ tag_values ''e'' (tags e),
                 deleted_addresses := deleted_addresses r1 @ tag_values ''a'' (tags e)\<rparr>
         else r1)"

text \<open>
  Modelled from the spec: \<open>publish\<close> (section 4.4, with the invariants of section 3
  and the consistency rejections of section 7). An id that is stored already, a
  tombstoned candidate and a candidate that does not supersede the stored event of
  its identity key are silent no-ops; a candidate that supersedes the stored event
  takes its place.
\<close>

definition repository_publish :: "repository \<Rightarrow> event \<Rightarrow> repository" where
  "repository_publish r e =
     (if ev_id e \<in> ev_id ` set (stored r) then r
      else if isDeleted r e \<or> isDeletedByAddress r e then r
      else (case identity_key e of
              None \<Rightarrow> accept r e
            | Some k \<Rightarrow>
                (case find (\<lambda>x. identity_key x = Some k) (stored r) of
                   None \<Rightarrow> accept r e
                 | Some old \<Rightarrow>
                     if supersedes e old
                     then accept (r\<lparr>stored := filter (\<lambda>x. ev_id x \<noteq> ev_id old) (stored r)\<rparr>) e
                     else r)))"

text \<open>
  Modelled from the spec: an event is accepted when \<open>publish\<close> stores it, that
  is when none of the consistency rejections applies.
\<close>

definition accepts :: "repository \<Rightarrow> event \<Rightarrow> bool" where
  "accepts r e =
     (ev_id e \<notin> ev_id ` set (stored r) \<and> \<not> isDeleted r e \<and> \<not> isDeletedByAddress r e
      \<and> (case identity_key e of
            None \<Rightarrow> True
          | Some k \<Rightarrow>
              (case find (\<lambda>x. identity_key x = Some k) (stored r) of
                 None \<Rightarrow> True
               | Some old \<Rightarrow> supersedes e old)))"

text \<open>
  Modelled from the spec: a tag constraint \<open>#x\<close> matches an event that has a tag
  with the key \<open>x\<close> and one of the accepted values.
\<close>

definition matches_tag :: "event \<Rightarrow> string \<times> jsstring list \<Rightarrow> bool" where
  "matches_tag e c =
     (\<exists>t \<in> set (tags e).
        (case tag_key t of None \<Rightarrow> False | Some k \<Rightarrow> CHR ''#'' # k = fst c)
        \<and> tag_value t \<in> set (snd c))"

text \<open>
  Modelled from the spec: an event matches a filter iff every constraint that is
  present matches; \<open>since\<close> and \<open>until\<close> are inclusive bounds, and \<open>limit\<close> is not
  a constraint on the event.
\<close>

definition matchFilter :: "filter \<Rightarrow> event \<Rightarrow> bool" where
  "matchFilter f e =
     ((case ids f of None \<Rightarrow> True | Some xs \<Rightarrow> Some (ev_id e) \<in> set xs)
      \<and> (case authors f of None \<Rightarrow> True | Some xs \<Rightarrow> Some (pubkey e) \<in> set xs)
      \<and> (case kinds f of None \<Rightarrow> True | Some ks \<Rightarrow> kind e \<in> set ks)
      \<and> list_all (matches_tag e) (tag_filters f)
      \<and> (case since f of None \<Rightarrow> True | Some t \<Rightarrow> t \<le> created_at e)
      \<and> (case until f of None \<Rightarrow> True | Some t \<Rightarrow> created_at e \<le> t))"

text \<open>
  Modelled from the spec: the deduplication by id of \<open>query\<close>; the first event of
  every id stays.
\<close>

fun uniq_by_id :: "event list \<Rightarrow> event list" where
  "uniq_by_id [] = []"
| "uniq_by_id (e # es) = e # uniq_by_id (filter (\<lambda>x. ev_id x \<noteq> ev_id e) es)"

text \<open>Modelled from the spec: the order of \<open>query\<close>, the greatest \<open>created_at\<close> first.\<close>

definition most_recent_first :: "event list \<Rightarrow> event list" where
  "most_recent_first es = sort_key (\<lambda>e. - created_at e) es"

text \<open>
  Modelled from the spec: the answer of \<open>query\<close> to one filter, most recent first
  and cut at the filter's \<open>limit\<close>. Tombstoned events are left out unless the caller
  asks for them.
\<close>

definition query_filter :: "bool \<Rightarrow> repository \<Rightarrow> filter \<Rightarrow> event list" where
  "query_filter includeDeleted r f =
     (let found = most_recent_first
            (filter (\<lambda>e. (includeDeleted \<or> \<not> (isDeleted r e \<or> isDeletedByAddress r e))
                          \<and> matchFilter f e) (stored r))
      in case limit f of None \<Rightarrow> found | Some n \<Rightarrow> take n found)"

text \<open>
  Modelled from the spec: \<open>query\<close> answers every filter on its own, merges the
  answers, removes duplicate ids and returns the result most recent first.
\<close>

definition repository_query_opts :: "bool \<Rightarrow> repository \<Rightarrow> filter list \<Rightarrow> event list" where
  "repository_query_opts includeDeleted r fs =
     most_recent_first (uniq_by_id (concat (map (query_filter includeDeleted r) fs)))"

text \<open>Modelled from the spec: \<open>query\<close> in the default mode, without tombstoned events.\<close>

definition repository_query :: "repository \<Rightarrow> filter list \<Rightarrow> event list" where
  "repository_query r fs = repository_query_opts False r fs"

text \<open>Modelled from the spec: \<open>dump\<close>, the export of every stored record.\<close>

definition dump :: "repository \<Rightarrow> event list" where
  "dump r = stored r"

text \<open>
  Modelled from the spec: \<open>getFilterResultCardinality\<close> of the util package is not
  among the sources; a filter with \<open>ids\<close> is bounded by their number, any other
  filter is unbounded.
\<close>

definition getFilterResultCardinality :: "filter \<Rightarrow> nat option" where
  "getFilterResultCardinality f = (case ids f of None \<Rightarrow> None | Some xs \<Rightarrow> Some (length xs))"

section \<open>The router\<close>

text \<open>
  Modelled from the spec: the class \<open>Router\<close> and its scenarios are not among the
  sources (only their declarations in the documentation are). The definitions of this
  section follow section 4.5 of the specification: a scenario is a list of weighted
  relay-set contributions, reduced in the steps (a) to (d).
\<close>

record selection =
  weight :: rat
  sel_relays :: "string list"

text \<open>
  Modelled from the spec: the pluggable callbacks of the router that the reduction
  reads: \<open>getFallbackRelays\<close>, \<open>getRelayQuality\<close> and \<open>getLimit\<close>.
\<close>

record router_options =
  getFallbackRelays :: "string list"
  getRelayQuality :: "string \<Rightarrow> rat"
  getLimit :: nat

text \<open>Modelled from the spec: step (a), one entry for every url, its weights summed.\<close>

fun add_weight :: "rat \<Rightarrow> (string \<times> rat) list \<Rightarrow> string \<Rightarrow> (string \<times> rat) list" where
  "add_weight w [] url = [(url, w)]"
| "add_weight w ((u, x) # m) url =
     (if u = url then (u, x + w) # m else (u, x) # add_weight w m url)"

text \<open>
  Modelled from the spec: step (a) over all contributions, the urls in the order of
  their first appearance.
\<close>

definition merge_selections :: "selection list \<Rightarrow> (string \<times> rat) list" where
  "merge_selections sels =
     foldl (\<lambda>m s. foldl (add_weight (weight s)) m (sel_relays s)) [] sels"

text \<open>
  Modelled from the spec: the combined weight of a url in the words of step (a), the
  sum, over the contributions, of the contribution's weight for every time it names
  the url.
\<close>

definition total_weight :: "selection list \<Rightarrow> string \<Rightarrow> rat" where
  "total_weight sels url =
     sum_list (map (\<lambda>s. weight s * of_nat (count_list (sel_relays s) url)) sels)"

text \<open>The weight of a url in a merged list, 0 when the list does not name it.\<close>

definition weight_of :: "(string \<times> rat) list \<Rightarrow> string \<Rightarrow> rat" where
  "weight_of m url = (case map_of m url of None \<Rightarrow> 0 | Some w \<Rightarrow> w)"

text \<open>
  Modelled from the spec: step (b), descending by combined weight, ties broken by
  the quality score (the greater first).
\<close>

definition rank_relays :: "router_options \<Rightarrow> (string \<times> rat) list \<Rightarrow> string list" where
  "rank_relays opts m =
     map fst (sort_key (\<lambda>(u, w). (- w, - getRelayQuality opts u)) m)"

text \<open>
  Modelled from the spec: a fallback policy maps the current count and the limit to
  the number of fallback relays to add; the policy of step (d) fills up to the limit
  when the result is empty or below the minimum threshold.
\<close>

definition threshold_policy :: "nat \<Rightarrow> nat \<Rightarrow> nat \<Rightarrow> nat" where
  "threshold_policy threshold n bound =
     (if n = 0 \<or> n < threshold then bound - n else 0)"

text \<open>
  Modelled from the spec: \<open>getUrls\<close>, the steps (a) to (d) in order: the ranking
  is cut at the limit, and the policy says how many fallback relays to append, up to
  the limit. The fallback relays that are appended are those that the result does not
  hold yet.
\<close>

definition getUrls ::
  "router_options \<Rightarrow> (nat \<Rightarrow> nat \<Rightarrow> nat) \<Rightarrow> selection list \<Rightarrow> string list" where
  "getUrls opts policy sels =
     (let primary = take (getLimit opts) (rank_relays opts (merge_selections sels));
          more = policy (length primary) (getLimit opts);
          fallbacks = filter (\<lambda>u. u \<notin> set primary) (uniq (getFallbackRelays opts))
      in primary @ take (min more (getLimit opts - length primary)) fallbacks)"

text \<open>
  Modelled from the spec: the result of the steps (a) to (c), the ranking cut at the
  limit.
\<close>

definition primary_relays :: "router_options \<Rightarrow> selection list \<Rightarrow> string list" where
  "primary_relays opts sels = take (getLimit opts) (rank_relays opts (merge_selections sels))"

text \<open>
  Modelled from the spec: the fallback relays that step (d) can append, those that
  the result of the steps (a) to (c) does not hold, each once and in their order.
\<close>

definition spare_fallbacks :: "router_options \<Rightarrow> selection list \<Rightarrow> string list" where
  "spare_fallbacks opts sels =
     filter (\<lambda>u. u \<notin> set (primary_relays opts sels)) (uniq (getFallbackRelays opts))"

section \<open>Example inputs\<close>

definition demo_ctx :: app_ctx where
  "demo_ctx = \<lparr>requestDelay = 50, ctx_authTimeout = 300, requestTimeout = 3000\<rparr>"

definition ev_a :: event where
  "ev_a = \<lparr>ev_id = ''a'', pubkey = ''alice'', created_at = 10, kind = 1, tags = [],
     content = ''hello'', sig = []\<rparr>"

definition repo_a :: repository where
  "repo_a = repository_publish empty_repository ev_a"

definition filter_a :: filter where
  "filter_a = empty_filter\<lparr>ids := Some [Some ''a'']\<rparr>"

definition filter_k :: filter where
  "filter_k = empty_filter\<lparr>kinds := Some [1]\<rparr>"

definition ev_net :: event where
  "ev_net = \<lparr>ev_id = ''n'', pubkey = ''bob'', created_at = 40, kind = 1, tags = [],
     content = ''from the relay'', sig = []\<rparr>"

definition demo_relay :: string where
  "demo_relay = ''wss://relay.example.com/''"

definition demo_request :: "filter list \<Rightarrow> bool key \<Rightarrow> filter partial_request" where
  "demo_request fs c =
     \<lparr>filters = fs, relays = Value [demo_relay], delay = Absent, timeout = Absent,
      authTimeout = Absent, closeOnEose = c\<rparr>"

definition dyn_k :: dynamic_filter where
  "dyn_k = \<lparr>ids = None, authors = None, kinds = Some [1], tag_filters = [], since = None,
     until = None, limit = None, scopes = None, min_wot = None, max_wot = None,
     until_ago = None, since_ago = None\<rparr>"

definition feed_relay_a :: feed where
  "feed_relay_a = RelayFeed [''wss://a/''] [FilterFeed [dyn_k]]"

definition feed_relay_b :: feed where
  "feed_relay_b = RelayFeed [''wss://b/''] [FilterFeed [dyn_k]]"

text \<open>What follows the first \<open>://\<close> of a string, and what follows the last one.\<close>

fun after_first :: "string \<Rightarrow> string option" where
  "after_first [] = None"
| "after_first (c # cs) =
     (if startsWith ''://'' (c # cs) then Some (drop 3 (c # cs)) else after_first cs)"

fun after_last :: "string \<Rightarrow> string option" where
  "after_last [] = None"
| "after_last (c # cs) =
     (case after_last cs of
        Some r \<Rightarrow> Some r
      | None \<Rightarrow> if startsWith ''://'' (c # cs) then Some (drop 3 (c # cs)) else None)"

text \<open>
  Modelled from the spec: \<open>normalizeUrl\<close> of the lib package is not among the
  sources, and the specification does not describe it. This instance of the
  parameter keeps what the examples need: a url without a protocol gets the default
  protocol \<open>http://\<close>; a url whose host is empty or holds a blank is rejected with a
  \<open>TypeError\<close>, as the \<open>URL\<close> constructor rejects it; any other url is returned as it
  is.
\<close>

definition demo_normalizeUrl :: "string \<Rightarrow> error + string" where
  "demo_normalizeUrl url =
     (let u = (case after_first url of None \<Rightarrow> ''http://'' @ url | Some r \<Rightarrow> url);
          host = takeWhile (\<lambda>c. c \<noteq> CHR ''/'')
                   (case after_first u of None \<Rightarrow> [] | Some r \<Rightarrow> r)
      in if host = [] \<or> CHR '' '' \<in> set host then Inl TypeError else Inr u)"

text \<open>
  Modelled from the spec: \<open>stripProtocol\<close> of the lib package is not among the
  sources, and the specification does not describe it. This instance of the
  parameter removes what a url has up to its last \<open>://\<close>.
\<close>

definition demo_stripProtocol :: "string \<Rightarrow> string" where
  "demo_stripProtocol url = (case after_last url of None \<Rightarrow> url | Some r \<Rightarrow> r)"



definition ev_old :: event where
  "ev_old = \<lparr>ev_id = ''b1'', pubkey = ''alice'', created_at = 10, kind = 10002, tags = [],
     content = ''old'', sig = []\<rparr>"

definition ev_new :: event where
  "ev_new = \<lparr>ev_id = ''a2'', pubkey = ''alice'', created_at = 20, kind = 10002, tags = [],
     content = ''new'', sig = []\<rparr>"

definition ev_tie :: event where
  "ev_tie = \<lparr>ev_id = ''b2'', pubkey = ''alice'', created_at = 10, kind = 10002, tags = [],
     content = ''tie'', sig = []\<rparr>"

definition filter_relay_lists :: filter where
  "filter_relay_lists = empty_filter\<lparr>kinds := Some [10002]\<rparr>"

definition del_a :: event where
  "del_a = \<lparr>ev_id = ''d1'', pubkey = ''alice'', created_at = 30, kind = 5,
     tags = [[''e'', ''a'']], content = [], sig = []\<rparr>"

definition demo_router :: router_options where
  "demo_router =
     \<lparr>getFallbackRelays = [''wss://f/''],
      getRelayQuality = (\<lambda>u. if u = ''wss://b/'' then 3 / 10 else 1 / 5),
      getLimit = 3\<rparr>"

definition demo_router_fg :: router_options where
  "demo_router_fg =
     \<lparr>getFallbackRelays = [''wss://f/'', ''wss://g/'', ''wss://f/''],
      getRelayQuality = (\<lambda>u. 1 / 2),
      getLimit = 3\<rparr>"

definition demo_selections :: "selection list" where
  "demo_selections = [\<lparr>weight = 1, sel_relays = [''wss://a/'', ''wss://b/'']\<rparr>]"

section \<open>Properties of subscribe and load\<close>

lemma shortcut_loop_eq:
  "shortcut_loop cardOf q fs kept evs =
     (kept @ takeWhile (\<lambda>f. \<not> fully_cached cardOf q f) fs,
      evs @ (case find (fully_cached cardOf q) fs of None \<Rightarrow> [] | Some f \<Rightarrow> q [f]))"
  by (induction fs arbitrary: kept evs) (auto simp: fully_cached_def Let_def split: option.splits)

lemma payloads_append: "payloads (xs @ ys) = payloads xs @ payloads ys"
  by (induction xs rule: payloads.induct) auto

lemma payloads_Event: "payloads (map (\<lambda>(url, e). Event url e) xs) = map snd xs"
  by (induction xs) auto

lemma subscribe_filters_truthy:
  "closeOnEose request = Value True \<Longrightarrow>
   b_filters (sub_request (subscribe ctx cardOf q request)) =
     takeWhile (\<lambda>f. \<not> fully_cached cardOf q f) (filters request)"
  by (simp add: subscribe_def truthy_def shortcut_loop_eq)

lemma subscribe_timer_truthy:
  "closeOnEose request = Value True \<Longrightarrow>
   sub_timer (subscribe ctx cardOf q request) =
     map (Pair LOCAL_RELAY_URL)
       (case find (fully_cached cardOf q) (filters request) of None \<Rightarrow> [] | Some f \<Rightarrow> q [f])"
  by (simp add: subscribe_def truthy_def shortcut_loop_eq)

lemma subscribe_falsy:
  "closeOnEose request \<noteq> Value True \<Longrightarrow>
   b_filters (sub_request (subscribe ctx cardOf q request)) = filters request
   \<and> sub_timer (subscribe ctx cardOf q request) = []"
  by (simp add: subscribe_def truthy_def)

lemma subscribe_closeOnEose:
  "b_closeOnEose (sub_request (subscribe ctx cardOf q request)) = read_key (closeOnEose request)"
  by (simp add: subscribe_def split: prod.splits)

lemma repo_a_eq: "repo_a = \<lparr>stored = [ev_a], deleted_ids = [], deleted_addresses = []\<rparr>"
  by (simp add: repo_a_def repository_publish_def empty_repository_def ev_a_def isDeleted_def
      isDeletedByAddress_def identity_key_def isReplaceableKind_def isAddressableKind_def
      accept_def DELETE_def address_def)

lemma query_repo_a_filter_a: "repository_query repo_a [filter_a] = [ev_a]"
  by (simp add: repo_a_eq repository_query_def repository_query_opts_def query_filter_def
      most_recent_first_def matchFilter_def filter_a_def empty_filter_def isDeleted_def
      isDeletedByAddress_def ev_a_def address_def identity_key_def isReplaceableKind_def
      isAddressableKind_def)

lemma fully_cached_filter_a:
  "fully_cached getFilterResultCardinality (repository_query repo_a) filter_a"
proof -
  have "getFilterResultCardinality filter_a = Some 1"
    by (simp add: getFilterResultCardinality_def filter_a_def)
  then show ?thesis
    by (simp add: fully_cached_def query_repo_a_filter_a)
qed

lemma not_fully_cached_filter_k:
  "\<not> fully_cached getFilterResultCardinality (repository_query repo_a) filter_k"
  by (simp add: fully_cached_def getFilterResultCardinality_def filter_k_def empty_filter_def)

text \<open>
  C1, as the code has it. When the request sets \<open>closeOnEose\<close>, no filter that is handed
  to the network subscription is fully cached, and the timer callback emits, first and
  under the local relay url, the cached results of the first fully cached filter of
  the request (nothing when no filter is fully cached); the body of \<open>subscribe\<close>
  emits nothing itself, so a handler attached once \<open>subscribe\<close> has returned receives
  every emission of the timer callback, between what the network emits before and
  after the timer fires. When the request does not set \<open>closeOnEose\<close>, every filter
  goes to the network and the timer callback emits nothing. The statement says
  nothing about the cached results of a second fully cached filter.
\<close>

theorem subscribe_local_shortcut:
  "(if closeOnEose request = Value True
    then (\<forall>f \<in> set (b_filters (sub_request (subscribe ctx cardOf q request))).
            \<not> fully_cached cardOf q f)
         \<and> (case find (fully_cached cardOf q) (filters request) of
               None \<Rightarrow> sub_timer (subscribe ctx cardOf q request) = []
             | Some f \<Rightarrow>
                 take (length (q [f])) (sub_timer (subscribe ctx cardOf q request)) =
                   map (Pair LOCAL_RELAY_URL) (q [f]))
    else b_filters (sub_request (subscribe ctx cardOf q request)) = filters request
         \<and> sub_timer (subscribe ctx cardOf q request) = [])
   \<and> payloads (load_trace (subscribe ctx cardOf q request) before after) =
       payloads before @ map snd (sub_timer (subscribe ctx cardOf q request)) @ payloads after"
proof -
  have "\<forall>f \<in> set (takeWhile (\<lambda>f. \<not> fully_cached cardOf q f) (filters request)).
          \<not> fully_cached cardOf q f"
    by (auto dest: set_takeWhileD)
  then show ?thesis
    by (simp add: subscribe_filters_truthy subscribe_timer_truthy subscribe_falsy
        load_trace_def payloads_append payloads_Event split: option.splits)
qed

text \<open>
  The statement of C1 at a request with \<open>closeOnEose\<close> set: of the filters
  \<open>{kinds: [1]}\<close> and \<open>{ids: ["a"]}\<close>, with the event \<open>a\<close> in the repository, the
  first goes to the network and the event \<open>a\<close> is emitted by the timer callback.
\<close>

theorem subscribe_local_shortcut_witness:
  "closeOnEose (demo_request [filter_k, filter_a] (Value True)) = Value True
   \<and> b_filters (sub_request (subscribe demo_ctx getFilterResultCardinality
         (repository_query repo_a) (demo_request [filter_k, filter_a] (Value True)))) = [filter_k]
   \<and> sub_timer (subscribe demo_ctx getFilterResultCardinality
         (repository_query repo_a) (demo_request [filter_k, filter_a] (Value True))
         :: (filter, event) subscription) = [(LOCAL_RELAY_URL, ev_a)]
   \<and> payloads (load_trace (subscribe demo_ctx getFilterResultCardinality
         (repository_query repo_a) (demo_request [filter_k, filter_a] (Value True))) [] [Complete])
       = [ev_a]"
  using subscribe_local_shortcut [of "demo_request [filter_k, filter_a] (Value True)" demo_ctx
      getFilterResultCardinality "repository_query repo_a" "[]" "[Complete]"]
    fully_cached_filter_a not_fully_cached_filter_k
  by (simp add: demo_request_def subscribe_filters_truthy subscribe_timer_truthy
      query_repo_a_filter_a)

text \<open>
  C1 as the claim words it fails for a request that does not set \<open>closeOnEose\<close>: the
  filter \<open>{ids: ["a"]}\<close> is fully cached, it is still handed to the network
  subscription, and nothing is delivered from the cache.
\<close>

theorem subscribe_without_closeOnEose_counterexample:
  "fully_cached getFilterResultCardinality (repository_query repo_a) filter_a
   \<and> b_filters (sub_request (subscribe demo_ctx getFilterResultCardinality
         (repository_query repo_a) (demo_request [filter_a] Absent))) = [filter_a]
   \<and> sub_timer (subscribe demo_ctx getFilterResultCardinality
         (repository_query repo_a) (demo_request [filter_a] Absent)
         :: (filter, event) subscription) = []"
  by (simp add: fully_cached_filter_a subscribe_falsy demo_request_def)

text \<open>
  C2 at the request \<open>{closeOnEose: true, filters: [{ids: ["a"]}, {kinds: [1]}]}\<close> with
  the event \<open>a\<close> in the repository: the filter \<open>{kinds: [1]}\<close> is not fully cached,
  and the loop leaves by \<open>break\<close> at the first filter, so no filter at all is handed
  to the network subscription.
\<close>

theorem subscribe_break_drops_later_filters:
  "\<not> fully_cached getFilterResultCardinality (repository_query repo_a) filter_k
   \<and> b_filters (sub_request (subscribe demo_ctx getFilterResultCardinality
         (repository_query repo_a) (demo_request [filter_a, filter_k] (Value True)))) = []"
  using fully_cached_filter_a not_fully_cached_filter_k
  by (simp add: subscribe_filters_truthy demo_request_def)

lemma foldl_load_handler:
  "resolved (foldl load_handler s tr) =
     (case resolved s of
        Some v \<Rightarrow> Some v
      | None \<Rightarrow> if Complete \<in> set tr
                then Some (acc s @ payloads (takeWhile (\<lambda>x. x \<noteq> Complete) tr))
                else None)"
proof (induction tr arbitrary: s)
  case Nil
  then show ?case by (simp split: option.splits)
next
  case (Cons x tr)
  then show ?case by (cases x) (auto split: option.splits)
qed

lemma load_request_closeOnEose:
  "read_key (closeOnEose (load_request ctx request)) = spread_over True (closeOnEose request)"
  by (simp add: load_request_def read_key_def spread_over_def split: key.splits)

lemma load_resolution:
  "load ctx cardOf q request before after =
     (if Complete \<in> set (load_trace (subscribe ctx cardOf q (load_request ctx request))
                            before after)
      then Some (payloads (takeWhile (\<lambda>x. x \<noteq> Complete)
                   (load_trace (subscribe ctx cardOf q (load_request ctx request))
                      before after)))
      else None)"
  by (simp add: load_def Let_def foldl_load_handler)

text \<open>
  C3, as the code has it. \<open>load\<close> subscribes with the \<open>closeOnEose\<close> of the request
  when the request has that key, and with \<open>true\<close> when it has not; so it
  subscribes with \<open>closeOnEose\<close> true for every request whose key \<open>closeOnEose\<close> is
  absent or true. And for every request the promise is resolved if and only if the
  subscription emits \<open>Complete\<close>, with the events emitted before the first
  \<open>Complete\<close>, in order, those of the timer callback among them.
\<close>

theorem load_resolves_on_complete:
  "b_closeOnEose (sub_request (subscribe ctx cardOf q (load_request ctx request))) =
     spread_over True (closeOnEose request)
   \<and> (closeOnEose request = Absent \<or> closeOnEose request = Value True \<longrightarrow>
        b_closeOnEose (sub_request (subscribe ctx cardOf q (load_request ctx request)))
          = Some True)
   \<and> load ctx cardOf q request before after =
       (if Complete \<in> set (load_trace (subscribe ctx cardOf q (load_request ctx request))
                              before after)
        then Some (payloads (takeWhile (\<lambda>x. x \<noteq> Complete)
                     (load_trace (subscribe ctx cardOf q (load_request ctx request))
                        before after)))
        else None)"
proof -
  have c: "b_closeOnEose (sub_request (subscribe ctx cardOf q (load_request ctx request))) =
             spread_over True (closeOnEose request)"
    by (simp only: subscribe_closeOnEose load_request_closeOnEose)
  have t: "closeOnEose request = Absent \<or> closeOnEose request = Value True \<longrightarrow>
             b_closeOnEose (sub_request (subscribe ctx cardOf q (load_request ctx request)))
               = Some True"
    unfolding c by (auto simp: spread_over_def)
  show ?thesis
    by (intro conjI) (rule c t load_resolution)+
qed

text \<open>
  The statement of C3 at the request \<open>{relays: [r], filters: [{kinds: [1]}, {ids:
  ["a"]}]}\<close>, without the key \<open>closeOnEose\<close> and with the event \<open>a\<close> in the
  repository: the subscription has \<open>closeOnEose\<close> true and asks the relay for
  \<open>{kinds: [1]}\<close>; when the relay sends an event and the subscription completes
  after the timer has fired, the promise resolves with the cached event and the
  relay's event; as long as the subscription has not completed it is not resolved.
\<close>

theorem load_resolves_on_complete_witness:
  "b_closeOnEose (sub_request (subscribe demo_ctx getFilterResultCardinality
      (repository_query repo_a)
      (load_request demo_ctx (demo_request [filter_k, filter_a] Absent)))) = Some True
   \<and> b_relays (sub_request (subscribe demo_ctx getFilterResultCardinality
      (repository_query repo_a)
      (load_request demo_ctx (demo_request [filter_k, filter_a] Absent)))) = Some [demo_relay]
   \<and> b_filters (sub_request (subscribe demo_ctx getFilterResultCardinality
      (repository_query repo_a)
      (load_request demo_ctx (demo_request [filter_k, filter_a] Absent)))) = [filter_k]
   \<and> load demo_ctx getFilterResultCardinality (repository_query repo_a)
         (demo_request [filter_k, filter_a] Absent) [] [Event demo_relay ev_net, Complete]
       = Some [ev_a, ev_net]
   \<and> load demo_ctx getFilterResultCardinality (repository_query repo_a)
         (demo_request [filter_k, filter_a] Absent) [] [Event demo_relay ev_net]
       = None"
proof -
  let ?sub = "subscribe demo_ctx getFilterResultCardinality (repository_query repo_a)
                (load_request demo_ctx (demo_request [filter_k, filter_a] Absent))
              :: (filter, event) subscription"
  have c0: "closeOnEose (demo_request [filter_k, filter_a] Absent) = Absent"
    by (simp add: demo_request_def)
  have k: "closeOnEose (load_request demo_ctx (demo_request [filter_k, filter_a] Absent))
             = Value True"
    by (simp add: load_request_def demo_request_def)
  have r: "b_relays (sub_request ?sub) = Some [demo_relay]"
    by (simp add: subscribe_def load_request_def demo_request_def spread_over_def
        split: prod.splits)
  have f: "b_filters (sub_request ?sub) = [filter_k]"
    using fully_cached_filter_a not_fully_cached_filter_k
    by (simp add: subscribe_filters_truthy [OF k]) (simp add: load_request_def demo_request_def)
  have t: "sub_timer ?sub = [(LOCAL_RELAY_URL, ev_a)]"
    using fully_cached_filter_a not_fully_cached_filter_k
    by (simp add: subscribe_timer_truthy [OF k])
      (simp add: load_request_def demo_request_def query_repo_a_filter_a)
  show ?thesis
    using load_resolves_on_complete [of demo_ctx getFilterResultCardinality
        "repository_query repo_a" "demo_request [filter_k, filter_a] Absent" "[]"
        "[Event demo_relay ev_net, Complete]"]
      load_resolves_on_complete [of demo_ctx getFilterResultCardinality
        "repository_query repo_a" "demo_request [filter_k, filter_a] Absent" "[]"
        "[Event demo_relay ev_net]"]
      r f c0
    by (simp add: load_trace_def t spread_over_def)
qed

text \<open>
  C3 as the claim words it fails for a request that sets \<open>closeOnEose\<close> to \<open>false\<close>:
  the spread \<open>...request\<close> comes after the default, and \<open>load\<close> subscribes with
  \<open>closeOnEose\<close> false.
\<close>

theorem load_closeOnEose_override_counterexample:
  "b_closeOnEose (sub_request (subscribe demo_ctx getFilterResultCardinality
      (repository_query repo_a)
      (load_request demo_ctx (demo_request [filter_a] (Value False)))))
     = Some False"
  by (simp add: subscribe_closeOnEose load_request_closeOnEose demo_request_def
      spread_over_def)

section \<open>Properties of the feed compiler\<close>

lemma set_uniq: "set (uniq xs) = set xs"
  by (induction xs rule: uniq.induct) auto

lemma distinct_uniq: "distinct (uniq xs)"
  by (induction xs rule: uniq.induct) (auto simp: set_uniq)

lemma foldl_relay_filter:
  "foldl (\<lambda>rs item. if item_relays item \<noteq> []
                      then filter (\<lambda>relay. relay \<in> set (item_relays item)) rs else rs) rs0 items
   = filter (\<lambda>relay. \<forall>item \<in> set items. item_relays item \<noteq> [] \<longrightarrow> relay \<in> set (item_relays item)) rs0"
proof (induction items arbitrary: rs0)
  case Nil
  then show ?case by simp
next
  case (Cons i items)
  show ?case
    unfolding foldl_Cons Cons.IH
    by (cases "item_relays i = []") (auto intro: filter_cong)
qed

lemma intersection_relays_eq:
  "intersection_relays items =
     (let relays1 = filter (\<lambda>relay. \<forall>item \<in> set items. item_relays item \<noteq> []
                                \<longrightarrow> relay \<in> set (item_relays item))
                      (uniq (concat (map item_relays items)))
      in if uniq (concat (map item_relays items)) \<noteq> [] \<and> relays1 = []
         then [BOGUS_RELAY_URL] else relays1)"
  by (simp add: intersection_relays_def Let_def foldl_relay_filter)

lemma uniq_Nil_iff: "(uniq xs = []) = (xs = [])"
  by (cases xs) auto

lemma common_relays_set:
  "\<exists>item \<in> set items. item_relays item \<noteq> [] \<Longrightarrow>
   set (filter (\<lambda>relay. \<forall>item \<in> set items. item_relays item \<noteq> []
                                \<longrightarrow> relay \<in> set (item_relays item))
                      (uniq (concat (map item_relays items)))) = common_relays items"
  by (auto simp: set_uniq common_relays_def)

lemma intersection_relays_none:
  assumes "\<forall>item \<in> set items. item_relays item = []"
  shows "intersection_relays items = []"
proof -
  from assms have "concat (map item_relays items) = []"
    by simp
  then show ?thesis
    by (simp only: intersection_relays_eq Let_def uniq.simps filter.simps) simp
qed

lemma intersection_relays_bogus:
  assumes "\<exists>item \<in> set items. item_relays item \<noteq> []" and "common_relays items = {}"
  shows "intersection_relays items = [BOGUS_RELAY_URL]"
proof -
  from assms(1) have "concat (map item_relays items) \<noteq> []"
    by auto
  moreover from assms have "filter (\<lambda>relay. \<forall>item \<in> set items. item_relays item \<noteq> []
                                \<longrightarrow> relay \<in> set (item_relays item))
                      (uniq (concat (map item_relays items))) = []"
    using common_relays_set [of items] by (simp only: set_empty [symmetric])
  ultimately show ?thesis
    by (simp add: intersection_relays_eq uniq_Nil_iff)
qed

lemma intersection_relays_common:
  assumes "\<exists>item \<in> set items. item_relays item \<noteq> []" and "common_relays items \<noteq> {}"
  shows "set (intersection_relays items) = common_relays items
         \<and> distinct (intersection_relays items)"
proof -
  from assms(1) have s: "set (filter (\<lambda>relay. \<forall>item \<in> set items. item_relays item \<noteq> []
                                \<longrightarrow> relay \<in> set (item_relays item))
                      (uniq (concat (map item_relays items)))) = common_relays items"
    by (rule common_relays_set)
  with assms(2) have n: "filter (\<lambda>relay. \<forall>item \<in> set items. item_relays item \<noteq> []
                                \<longrightarrow> relay \<in> set (item_relays item))
                      (uniq (concat (map item_relays items))) \<noteq> []"
    by (metis set_empty)
  show ?thesis
    using s n by (simp add: intersection_relays_eq Let_def distinct_uniq)
qed

text \<open>
  The relay list that lines 86 to 97 compute from a list of items: it is empty when
  no item has contributed a relay; it is the single url \<open>BOGUS_RELAY_URL\<close> when
  some item has contributed relays and no relay is common to all the items that
  have; otherwise it holds, without duplicates, exactly the relays common to all the
  items that have contributed some.
\<close>

lemma intersection_relays_cases:
  "((\<forall>item \<in> set items. item_relays item = []) \<longrightarrow> intersection_relays items = [])
   \<and> ((\<exists>item \<in> set items. item_relays item \<noteq> []) \<and> common_relays items = {}
        \<longrightarrow> intersection_relays items = [BOGUS_RELAY_URL])
   \<and> ((\<exists>item \<in> set items. item_relays item \<noteq> []) \<and> common_relays items \<noteq> {}
        \<longrightarrow> set (intersection_relays items) = common_relays items
            \<and> distinct (intersection_relays items))"
  using intersection_relays_none [of items] intersection_relays_bogus [of items]
    intersection_relays_common [of items]
  by blast

text \<open>
  The items that reach those lines: a call of \<open>compile\<close> without its receiver
  succeeds only on a filter feed without filters, so every item that
  \<open>_compileIntersection\<close> gets has no relays, and whenever it returns at all it
  returns the empty relay list.
\<close>

lemma compile_unbound_Inr:
  "compile opts False feed = Inr item \<Longrightarrow>
   feed = FilterFeed [] \<and> item = \<lparr>item_relays = [], item_filters = []\<rparr>"
  by (cases feed) (auto split: if_splits)

lemma compile_all_unbound_Inr:
  "compile_all opts False feeds = Inr items \<Longrightarrow> \<forall>item \<in> set items. item_relays item = []"
proof (induction feeds arbitrary: items)
  case Nil
  then show ?case by simp
next
  case (Cons feed feeds)
  from Cons.prems obtain item rest where i: "compile opts False feed = Inr item"
    and r: "compile_all opts False feeds = Inr rest" and e: "items = item # rest"
    by (auto split: sum.splits)
  from i have "item_relays item = []"
    using compile_unbound_Inr by fastforce
  moreover from r have "\<forall>x \<in> set rest. item_relays x = []"
    by (rule Cons.IH)
  ultimately show ?case
    using e by simp
qed

lemma compileIntersection_Inr_relays:
  "compile opts True (IntersectionFeed feeds) = Inr item \<Longrightarrow> item_relays item = []"
proof -
  assume a: "compile opts True (IntersectionFeed feeds) = Inr item"
  then obtain items where c: "compile_all opts False feeds = Inr items"
    and i: "item_relays item = intersection_relays items"
    by (auto split: sum.splits)
  from c have "\<forall>x \<in> set items. item_relays x = []"
    by (rule compile_all_unbound_Inr)
  then show ?thesis
    unfolding i by (rule intersection_relays_none)
qed

lemma compile_feed_relay_a:
  "compile opts True feed_relay_a =
     Inr \<lparr>item_relays = [''wss://a/''],
          item_filters = unionFilters opts [compileFilter opts dyn_k]\<rparr>"
  by (simp add: feed_relay_a_def)

lemma compile_feed_relay_b:
  "compile opts True feed_relay_b =
     Inr \<lparr>item_relays = [''wss://b/''],
          item_filters = unionFilters opts [compileFilter opts dyn_k]\<rparr>"
  by (simp add: feed_relay_b_def)

text \<open>
  C4 at the feed \<open>[Intersection, [Relay, ["wss://a/"], [Filter, {kinds: [1]}]],
  [Relay, ["wss://b/"], [Filter, {kinds: [1]}]]]\<close>. Each of the two sub-feeds compiles,
  to an item with the relay \<open>wss://a/\<close> and to one with the relay \<open>wss://b/\<close>, and
  from these two items lines 86 to 97 would give the single url \<open>BOGUS_RELAY_URL\<close>,
  as the claim says. But \<open>_compileIntersection\<close> hands \<open>this.compile\<close> to \<open>map\<close>
  without its receiver, and the promise of \<open>compile\<close> is rejected with a
  \<open>TypeError\<close>: there is no relay list.
\<close>

theorem compileIntersection_loses_receiver:
  "(\<exists>ia ib. compile opts True feed_relay_a = Inr ia \<and> item_relays ia = [''wss://a/'']
       \<and> compile opts True feed_relay_b = Inr ib \<and> item_relays ib = [''wss://b/'']
       \<and> intersection_relays [ia, ib] = [BOGUS_RELAY_URL])
   \<and> compile opts True (IntersectionFeed [feed_relay_a, feed_relay_b]) = Inl TypeError"
proof -
  have "intersection_relays
          [\<lparr>item_relays = [''wss://a/''],
             item_filters = unionFilters opts [compileFilter opts dyn_k]\<rparr>,
           \<lparr>item_relays = [''wss://b/''],
             item_filters = unionFilters opts [compileFilter opts dyn_k]\<rparr>]
        = [BOGUS_RELAY_URL]"
    by (simp add: intersection_relays_def)
  moreover have "compile opts True (IntersectionFeed [feed_relay_a, feed_relay_b]) = Inl TypeError"
    by (simp add: feed_relay_a_def)
  ultimately show ?thesis
    by (simp add: compile_feed_relay_a compile_feed_relay_b)
qed

lemma getFiltersFromTags_error:
  "getFiltersFromTags opts ts = Inl e \<Longrightarrow> e = TypeError"
  by (auto simp: getFiltersFromTags_def call_getIdFilters_def Let_def
      split: if_splits sum.splits)

lemma compileLists_error: "compileLists opts addresses = Inl e \<Longrightarrow> e = TypeError"
  by (auto simp: compileLists_def Let_def split: sum.splits dest: getFiltersFromTags_error)

lemma compileDvms_error: "compileDvms opts requests = Inl e \<Longrightarrow> e = TypeError"
  by (auto simp: compileDvms_def Let_def split: sum.splits dest: getFiltersFromTags_error)

text \<open>
  C8 at the feed \<open>[Intersection, [Filter, {kinds: [1]}]]\<close>: \<open>canCompile\<close> returns
  true, and the promise of \<open>compile\<close> is rejected with a \<open>TypeError\<close>, because
  \<open>_compileIntersection\<close> hands \<open>this.compile\<close> to \<open>map\<close> without its receiver.
  The same sub-feed under a union compiles: \<open>_compileUnion\<close> calls
  \<open>this.compile(feed)\<close>.
\<close>

theorem canCompile_true_compile_rejects:
  "canCompile True (IntersectionFeed [FilterFeed [dyn_k]]) = Inr True
   \<and> compile opts True (IntersectionFeed [FilterFeed [dyn_k]]) = Inl TypeError
   \<and> (\<exists>item. compile opts True (UnionFeed [FilterFeed [dyn_k]]) = Inr item)"
  by simp

lemma canCompile_unbound_cases:
  "canCompile False feed = Inr True \<Longrightarrow>
   (\<exists>dfs. feed = FilterFeed dfs) \<or> (\<exists>a. feed = ListFeed a) \<or> (\<exists>r. feed = DVMFeed r)"
  by (cases feed) auto

lemma compile_leaf_not_unable:
  "canCompile False feed = Inr True \<Longrightarrow> compile opts this feed \<noteq> Inl UnableToConvert"
  by (cases feed) (auto dest: compileLists_error compileDvms_error)

lemma compile_all_not_unable:
  "every_canCompile feeds = Inr True \<Longrightarrow> compile_all opts this feeds \<noteq> Inl UnableToConvert"
proof (induction feeds)
  case Nil
  then show ?case by simp
next
  case (Cons feed feeds)
  from Cons.prems have c: "canCompile False feed = Inr True" and r: "every_canCompile feeds = Inr True"
    by (auto split: sum.splits if_splits)
  from c have "compile opts this feed \<noteq> Inl UnableToConvert"
    by (rule compile_leaf_not_unable)
  moreover from r have "compile_all opts this feeds \<noteq> Inl UnableToConvert"
    by (rule Cons.IH)
  ultimately show ?case
    by (auto split: sum.splits)
qed

text \<open>
  The error of the \<open>default\<close> branch is indeed never raised for a feed that
  \<open>canCompile\<close> accepts.
\<close>

lemma canCompile_never_unable:
  "canCompile True feed = Inr True \<Longrightarrow> compile opts True feed \<noteq> Inl UnableToConvert"
  using compile_all_not_unable [of _ opts]
  by (cases feed) (auto split: sum.splits dest: compileLists_error compileDvms_error)

section \<open>Properties of normalizeRelayUrl\<close>

lemma of_char_lower: "is_upper c \<Longrightarrow> \<not> is_upper (toLowerCase_char c)"
  by (simp add: is_upper_def toLowerCase_char_def)

lemma not_upper_toLowerCase_char: "\<not> is_upper (toLowerCase_char c)"
  by (cases "is_upper c") (simp_all add: of_char_lower, simp add: toLowerCase_char_def)

lemma toLowerCase_ascii:
  "list_all is_ascii s \<Longrightarrow> toLowerCase lowerOther s = map toLowerCase_char s"
  by (simp add: toLowerCase_def)

lemma toLowerCase_ascii_no_upper:
  "list_all is_ascii s \<Longrightarrow> list_all (\<lambda>c. \<not> is_upper c) (toLowerCase lowerOther s)"
  by (simp add: toLowerCase_ascii list_all_iff not_upper_toLowerCase_char)

lemma normalizeRelayUrl_default:
  "normalizeRelayUrl normalizeUrl stripProtocol lowerOther False url =
     (case normalizeUrl url of
        Inl e \<Rightarrow> Inl e
      | Inr u \<Rightarrow>
          Inr (''wss://'' @ toLowerCase lowerOther (stripProtocol u)
               @ (if CHR ''/'' \<in> set (toLowerCase lowerOther (stripProtocol u))
                  then [] else ''/'')))"
  by (simp add: normalizeRelayUrl_def Let_def split: sum.splits)

lemma normalizeRelayUrl_prefix_slash:
  assumes "normalizeRelayUrl normalizeUrl stripProtocol lowerOther False url = Inr res"
  shows "take 6 res = ''wss://'' \<and> CHR ''/'' \<in> set (drop 6 res)"
  using assms unfolding normalizeRelayUrl_default
  by (auto split: sum.splits if_splits)

lemma normalizeRelayUrl_no_upper:
  assumes "normalizeUrl url = Inr u" and "list_all is_ascii (stripProtocol u)"
    and "normalizeRelayUrl normalizeUrl stripProtocol lowerOther False url = Inr res"
  shows "list_all (\<lambda>c. \<not> is_upper c) (drop 6 res)"
proof -
  have "\<not> is_upper CHR ''/''"
    by (simp add: is_upper_def)
  then show ?thesis
    using assms(3) toLowerCase_ascii_no_upper [OF assms(2), of lowerOther]
    unfolding normalizeRelayUrl_default assms(1)
    by (auto split: if_splits)
qed

text \<open>
  C9, as the code has it. With the default options \<open>normalizeRelayUrl\<close> throws
  what \<open>normalizeUrl\<close> throws; and when \<open>normalizeUrl\<close> returns \<open>u\<close>, it returns
  \<open>wss://\<close>, then \<open>stripProtocol(u)\<close> in lower case, then a \<open>/\<close> exactly when that
  remainder holds none. So every result begins with \<open>wss://\<close> and holds a \<open>/\<close> after
  the protocol, and what follows the protocol holds no upper case letter when
  \<open>stripProtocol(u)\<close> is ASCII.
\<close>

theorem normalizeRelayUrl_shape:
  "normalizeRelayUrl normalizeUrl stripProtocol lowerOther False url =
     (case normalizeUrl url of
        Inl e \<Rightarrow> Inl e
      | Inr u \<Rightarrow>
          Inr (''wss://'' @ toLowerCase lowerOther (stripProtocol u)
               @ (if CHR ''/'' \<in> set (toLowerCase lowerOther (stripProtocol u))
                  then [] else ''/'')))
   \<and> (\<forall>res. normalizeRelayUrl normalizeUrl stripProtocol lowerOther False url = Inr res
          \<longrightarrow> take 6 res = ''wss://'' \<and> CHR ''/'' \<in> set (drop 6 res))
   \<and> (\<forall>u res. normalizeUrl url = Inr u \<and> list_all is_ascii (stripProtocol u)
          \<and> normalizeRelayUrl normalizeUrl stripProtocol lowerOther False url = Inr res
          \<longrightarrow> list_all (\<lambda>c. \<not> is_upper c) (drop 6 res))"
  using normalizeRelayUrl_default [of normalizeUrl stripProtocol lowerOther url]
    normalizeRelayUrl_prefix_slash [of normalizeUrl stripProtocol lowerOther url]
    normalizeRelayUrl_no_upper [of normalizeUrl url _ stripProtocol lowerOther]
  by blast

lemma normalizeRelayUrl_example_host:
  "normalizeRelayUrl demo_normalizeUrl demo_stripProtocol (\<lambda>s. s) False
     ''wss://Relay.Example.COM'' = Inr ''wss://relay.example.com/''"
  by code_simp

lemma normalizeRelayUrl_example_path:
  "normalizeRelayUrl demo_normalizeUrl demo_stripProtocol (\<lambda>s. s) False
     ''relay.example.com/Nostr'' = Inr ''wss://relay.example.com/nostr''"
  by code_simp

text \<open>
  C9 at the url \<open>wss://Relay.Example.COM\<close>, which has no pathname and gets the
  trailing slash, and at the url \<open>relay.example.com/Nostr\<close>, which has one and gets
  none.
\<close>

theorem normalizeRelayUrl_shape_witness:
  "normalizeRelayUrl demo_normalizeUrl demo_stripProtocol (\<lambda>s. s) False
     ''wss://Relay.Example.COM'' = Inr ''wss://relay.example.com/''
   \<and> normalizeRelayUrl demo_normalizeUrl demo_stripProtocol (\<lambda>s. s) False
     ''relay.example.com/Nostr'' = Inr ''wss://relay.example.com/nostr''
   \<and> demo_normalizeUrl ''wss://Relay.Example.COM'' = Inr ''wss://Relay.Example.COM''
   \<and> list_all is_ascii (demo_stripProtocol ''wss://Relay.Example.COM'')
   \<and> list_all (\<lambda>c. \<not> is_upper c) ''relay.example.com/''
   \<and> take 6 ''wss://relay.example.com/'' = ''wss://''
   \<and> CHR ''/'' \<in> set ''relay.example.com/''"
proof -
  have n: "demo_normalizeUrl ''wss://Relay.Example.COM'' = Inr ''wss://Relay.Example.COM''"
    by code_simp
  have a: "list_all is_ascii (demo_stripProtocol ''wss://Relay.Example.COM'')"
    by code_simp
  have "\<forall>u res. demo_normalizeUrl ''wss://Relay.Example.COM'' = Inr u
          \<and> list_all is_ascii (demo_stripProtocol u)
          \<and> normalizeRelayUrl demo_normalizeUrl demo_stripProtocol (\<lambda>s. s) False
                ''wss://Relay.Example.COM'' = Inr res
          \<longrightarrow> list_all (\<lambda>c. \<not> is_upper c) (drop 6 res)"
    by (rule normalizeRelayUrl_shape [of demo_normalizeUrl demo_stripProtocol "\<lambda>s. s"
          "''wss://Relay.Example.COM''", THEN conjunct2, THEN conjunct2])
  then have "list_all (\<lambda>c. \<not> is_upper c) (drop 6 ''wss://relay.example.com/'')"
    using n a normalizeRelayUrl_example_host by blast
  then have u: "list_all (\<lambda>c. \<not> is_upper c) ''relay.example.com/''"
    by simp
  show ?thesis
    using normalizeRelayUrl_example_host normalizeRelayUrl_example_path n a u
    by simp
qed

text \<open>
  C9 as the claim words it fails at the empty string: \<open>normalizeUrl\<close> rejects a url
  without a host, the call on line 32 is not guarded, and \<open>normalizeRelayUrl\<close>
  throws instead of returning a string.
\<close>

theorem normalizeRelayUrl_throws_counterexample:
  "normalizeRelayUrl demo_normalizeUrl demo_stripProtocol (\<lambda>s. s) False [] = Inl TypeError"
  by code_simp

section \<open>Properties of the filters from tags\<close>
















section \<open>Properties of the repository\<close>

lemma publish_rejects: "\<not> accepts r e \<Longrightarrow> repository_publish r e = r"
  by (auto simp: accepts_def repository_publish_def split: option.splits)

lemma deleted_ids_accept: "set (deleted_ids r) \<subseteq> set (deleted_ids (accept r e))"
  by (auto simp: accept_def Let_def)

lemma deleted_ids_publish: "set (deleted_ids r) \<subseteq> set (deleted_ids (repository_publish r e))"
proof -
  have "set (deleted_ids (r\<lparr>stored := xs\<rparr>)) \<subseteq> set (deleted_ids (accept (r\<lparr>stored := xs\<rparr>) e))" for xs
    by (rule deleted_ids_accept)
  then show ?thesis
    using deleted_ids_accept [of r e]
    by (auto simp: repository_publish_def split: option.splits)
qed

lemma isDeleted_publish: "isDeleted r x \<Longrightarrow> isDeleted (repository_publish r e) x"
  using deleted_ids_publish [of r e] by (auto simp: isDeleted_def)

lemma isDeleted_foldl: "isDeleted r x \<Longrightarrow> isDeleted (foldl repository_publish r es) x"
  by (induction es arbitrary: r) (simp_all add: isDeleted_publish)

lemma set_uniq_by_id: "set (uniq_by_id xs) \<subseteq> set xs"
  by (induction xs rule: uniq_by_id.induct) auto

lemma set_query_filter:
  "e \<in> set (query_filter False r f) \<Longrightarrow>
   e \<in> set (stored r) \<and> \<not> isDeleted r e \<and> \<not> isDeletedByAddress r e \<and> matchFilter f e"
  by (auto simp: query_filter_def most_recent_first_def Let_def split: option.splits
      dest: in_set_takeD)

lemma set_repository_query:
  "e \<in> set (repository_query r fs) \<Longrightarrow>
   e \<in> set (stored r) \<and> \<not> isDeleted r e \<and> \<not> isDeletedByAddress r e
   \<and> (\<exists>f \<in> set fs. matchFilter f e)"
proof -
  assume "e \<in> set (repository_query r fs)"
  then have "e \<in> set (concat (map (query_filter False r) fs))"
    using set_uniq_by_id [of "concat (map (query_filter False r) fs)"]
    by (auto simp: repository_query_def repository_query_opts_def most_recent_first_def)
  then obtain f where "f \<in> set fs" "e \<in> set (query_filter False r f)"
    by auto
  then show ?thesis
    using set_query_filter [of e r f] by blast
qed

lemma deletion_has_no_key: "kind d = DELETE \<Longrightarrow> identity_key d = None"
  by (simp add: identity_key_def DELETE_def isReplaceableKind_def isAddressableKind_def)

lemma publish_accepted_deletion:
  "accepts r d \<Longrightarrow> kind d = DELETE \<Longrightarrow>
   repository_publish r d =
     r\<lparr>stored := stored r @ [d],
       deleted_ids := deleted_ids r @ tag_values ''e'' (tags d),
       deleted_addresses := deleted_addresses r @ tag_values ''a'' (tags d)\<rparr>"
  by (simp add: accepts_def repository_publish_def deletion_has_no_key accept_def)

text \<open>
  C6. Let the record of \<open>x\<close> be in the repository, and let the repository accept a
  deletion \<open>d\<close> that names the id of \<open>x\<close> in an \<open>e\<close> tag. Then \<open>isDeleted\<close> holds
  for \<open>x\<close> and \<open>dump\<close> still contains \<open>x\<close>; and after any further events are
  published, \<open>isDeleted\<close> still holds for \<open>x\<close> and no query in the default mode
  returns \<open>x\<close>.
\<close>

theorem deletion_tombstones_and_retains:
  assumes "x \<in> set (dump r)"
    and "kind d = DELETE"
    and "Some (ev_id x) \<in> set (tag_values ''e'' (tags d))"
    and "accepts r d"
  shows "isDeleted (repository_publish r d) x
         \<and> x \<in> set (dump (repository_publish r d))
         \<and> isDeleted (foldl repository_publish (repository_publish r d) later) x
         \<and> x \<notin> set (repository_query (foldl repository_publish (repository_publish r d) later) fs)"
proof -
  have p: "repository_publish r d =
     r\<lparr>stored := stored r @ [d],
       deleted_ids := deleted_ids r @ tag_values ''e'' (tags d),
       deleted_addresses := deleted_addresses r @ tag_values ''a'' (tags d)\<rparr>"
    using assms(4,2) by (rule publish_accepted_deletion)
  have d: "isDeleted (repository_publish r d) x"
    using assms(3) by (simp add: p isDeleted_def)
  have s: "x \<in> set (dump (repository_publish r d))"
    using assms(1) by (simp add: p dump_def)
  have l: "isDeleted (foldl repository_publish (repository_publish r d) later) x"
    using d by (rule isDeleted_foldl)
  have q: "x \<notin> set (repository_query (foldl repository_publish (repository_publish r d) later) fs)"
    using l set_repository_query by blast
  show ?thesis
    using d s l q by simp
qed

text \<open>
  C6 at the repository that holds the event \<open>a\<close>, with a deletion that names \<open>a\<close>
  and a late second publish of \<open>a\<close>.
\<close>

theorem deletion_tombstones_and_retains_witness:
  "ev_a \<in> set (dump repo_a)
   \<and> kind del_a = DELETE
   \<and> Some (ev_id ev_a) \<in> set (tag_values ''e'' (tags del_a))
   \<and> accepts repo_a del_a
   \<and> isDeleted (repository_publish repo_a del_a) ev_a
   \<and> ev_a \<in> set (dump (repository_publish repo_a del_a))
   \<and> ev_a \<notin> set (repository_query
         (foldl repository_publish (repository_publish repo_a del_a) [ev_a]) [filter_a])"
proof -
  have h1: "ev_a \<in> set (dump repo_a)"
    by (simp add: repo_a_eq dump_def)
  have h2: "kind del_a = DELETE"
    by (simp add: del_a_def DELETE_def)
  have h3: "Some (ev_id ev_a) \<in> set (tag_values ''e'' (tags del_a))"
    by (simp add: del_a_def ev_a_def tag_values_def tag_key_def tag_value_def)
  have h4: "accepts repo_a del_a"
    by (simp add: accepts_def repo_a_eq isDeleted_def isDeletedByAddress_def
        deletion_has_no_key [OF h2]) (simp add: del_a_def ev_a_def)
  show ?thesis
    using h1 h2 h3 h4
      deletion_tombstones_and_retains [OF h1 h2 h3 h4, of "[ev_a]" "[filter_a]"]
    by simp
qed

lemma find_snoc:
  "find P (xs @ [y]) = (case find P xs of Some x \<Rightarrow> Some x | None \<Rightarrow> if P y then Some y else None)"
  by (induction xs) auto

lemma find_None_iff': "(find P xs = None) = (\<forall>x \<in> set xs. \<not> P x)"
  by (induction xs) auto

lemma supersedes_asym: "supersedes a b \<Longrightarrow> \<not> supersedes b a"
  by (auto simp: supersedes_def)

lemma key_not_deletion: "identity_key e = Some k \<Longrightarrow> kind e \<noteq> DELETE"
  by (auto simp: identity_key_def DELETE_def isReplaceableKind_def isAddressableKind_def
      split: if_splits)

lemma same_key_same_address: "identity_key a = identity_key b \<Longrightarrow> address a = address b"
  by (simp add: address_def)

lemma isDeleted_stored [simp]: "isDeleted (r\<lparr>stored := xs\<rparr>) e = isDeleted r e"
  by (simp add: isDeleted_def)

lemma isDeletedByAddress_stored [simp]:
  "isDeletedByAddress (r\<lparr>stored := xs\<rparr>) e = isDeletedByAddress r e"
  by (simp add: isDeletedByAddress_def)

lemma uniq_by_id_mem:
  "e \<in> set xs \<Longrightarrow> \<forall>x \<in> set xs. ev_id x = ev_id e \<longrightarrow> x = e \<Longrightarrow> e \<in> set (uniq_by_id xs)"
  by (induction xs rule: uniq_by_id.induct) auto

lemma query_filter_mem:
  "e \<in> set (stored r) \<Longrightarrow> \<not> isDeleted r e \<Longrightarrow> \<not> isDeletedByAddress r e \<Longrightarrow>
   matchFilter f e \<Longrightarrow> limit f = None \<Longrightarrow> e \<in> set (query_filter False r f)"
  by (simp add: query_filter_def most_recent_first_def)

lemma repository_query_mem:
  assumes "e \<in> set (stored r)" and "\<not> isDeleted r e" and "\<not> isDeletedByAddress r e"
    and "matchFilter f e" and "limit f = None"
    and "\<forall>x \<in> set (stored r). ev_id x = ev_id e \<longrightarrow> x = e"
  shows "e \<in> set (repository_query r [f])"
proof -
  have m: "e \<in> set (query_filter False r f)"
    using assms(1-5) by (rule query_filter_mem)
  have "\<forall>x \<in> set (query_filter False r f). ev_id x = ev_id e \<longrightarrow> x = e"
    using assms(6) set_query_filter [of _ r f] by blast
  with m have "e \<in> set (uniq_by_id (query_filter False r f))"
    by (rule uniq_by_id_mem)
  then show ?thesis
    by (simp add: repository_query_def repository_query_opts_def most_recent_first_def)
qed

text \<open>
  C5. Let \<open>e1\<close> and \<open>e2\<close> have the same replaceable or addressable identity key,
  with \<open>e2\<close> the later one (\<open>supersedes e2 e1\<close>: the greater \<open>created_at\<close>, or the
  same \<open>created_at\<close> and the lexicographically greater id), and let the repository
  accept either of them: their ids are not stored, it stores no event of their
  identity key, and neither is tombstoned. Then publishing both, in either order,
  ends in the same state; that state stores \<open>e2\<close> and not \<open>e1\<close>, every event of the
  identity key that a query returns is \<open>e2\<close>, and a query with a filter without
  limit that \<open>e2\<close> matches returns \<open>e2\<close>.
\<close>

theorem replaceable_newest_wins:
  assumes k1: "identity_key e1 = Some k" and k2: "identity_key e2 = Some k"
    and newer: "supersedes e2 e1"
    and ids: "ev_id e1 \<noteq> ev_id e2"
    and fresh: "\<forall>x \<in> set (stored r). identity_key x \<noteq> Some k \<and> ev_id x \<noteq> ev_id e1 \<and> ev_id x \<noteq> ev_id e2"
    and live: "\<not> isDeleted r e1" "\<not> isDeleted r e2" "\<not> isDeletedByAddress r e1"
  shows "repository_publish (repository_publish r e1) e2 = r\<lparr>stored := stored r @ [e2]\<rparr>
         \<and> repository_publish (repository_publish r e2) e1 = r\<lparr>stored := stored r @ [e2]\<rparr>
         \<and> e1 \<notin> set (dump (r\<lparr>stored := stored r @ [e2]\<rparr>))
         \<and> e2 \<in> set (dump (r\<lparr>stored := stored r @ [e2]\<rparr>))
         \<and> (\<forall>e \<in> set (repository_query (r\<lparr>stored := stored r @ [e2]\<rparr>) fs).
               identity_key e = Some k \<longrightarrow> e = e2)
         \<and> (matchFilter f e2 \<and> limit f = None
              \<longrightarrow> e2 \<in> set (repository_query (r\<lparr>stored := stored r @ [e2]\<rparr>) [f]))"
proof -
  have a2: "\<not> isDeletedByAddress r e2"
    using live(3) same_key_same_address [of e1 e2] k1 k2 by (simp add: isDeletedByAddress_def)
  have nf: "find (\<lambda>x. identity_key x = Some k) (stored r) = None"
    using fresh by (simp add: find_None_iff')
  have n1: "ev_id e1 \<notin> ev_id ` set (stored r)" and n2: "ev_id e2 \<notin> ev_id ` set (stored r)"
    using fresh by auto
  have d1: "kind e1 \<noteq> DELETE" and d2: "kind e2 \<noteq> DELETE"
    using k1 k2 key_not_deletion by blast+
  have p1: "repository_publish r e1 = r\<lparr>stored := stored r @ [e1]\<rparr>"
    using n1 live k1 nf d1 by (simp add: repository_publish_def accept_def)
  have p2: "repository_publish r e2 = r\<lparr>stored := stored r @ [e2]\<rparr>"
    using n2 live a2 k2 nf d2 by (simp add: repository_publish_def accept_def)
  have f1: "filter (\<lambda>x. ev_id x \<noteq> ev_id e1) (stored r @ [e1]) = stored r"
    using fresh by (simp add: filter_id_conv)
  have p12: "repository_publish (r\<lparr>stored := stored r @ [e1]\<rparr>) e2 = r\<lparr>stored := stored r @ [e2]\<rparr>"
    using n2 ids live a2 k1 k2 nf newer d2 f1
    by (simp add: repository_publish_def accept_def find_snoc)
  have p21: "repository_publish (r\<lparr>stored := stored r @ [e2]\<rparr>) e1 = r\<lparr>stored := stored r @ [e2]\<rparr>"
    using n1 ids live k1 k2 nf supersedes_asym [OF newer]
    by (simp add: repository_publish_def find_snoc)
  have s1: "e1 \<notin> set (stored r @ [e2])"
    using fresh ids by auto
  have q: "\<forall>e \<in> set (repository_query (r\<lparr>stored := stored r @ [e2]\<rparr>) fs).
               identity_key e = Some k \<longrightarrow> e = e2"
  proof (intro ballI impI)
    fix e
    assume "e \<in> set (repository_query (r\<lparr>stored := stored r @ [e2]\<rparr>) fs)"
      and "identity_key e = Some k"
    then show "e = e2"
      using set_repository_query [of e "r\<lparr>stored := stored r @ [e2]\<rparr>" fs] fresh by auto
  qed
  have u: "\<forall>x \<in> set (stored (r\<lparr>stored := stored r @ [e2]\<rparr>)). ev_id x = ev_id e2 \<longrightarrow> x = e2"
    using fresh by auto
  have m: "matchFilter f e2 \<and> limit f = None
              \<longrightarrow> e2 \<in> set (repository_query (r\<lparr>stored := stored r @ [e2]\<rparr>) [f])"
    using repository_query_mem [of e2 "r\<lparr>stored := stored r @ [e2]\<rparr>" f] live(2) a2 u
    by simp
  show ?thesis
    using p1 p2 p12 p21 s1 q m by (simp add: dump_def)
qed

text \<open>
  C5 at the empty repository, with two relay lists (kind 10002) of one author: the
  first pair differs in \<open>created_at\<close>, the second has the same \<open>created_at\<close> and the
  ids \<open>b1\<close> and \<open>b2\<close>.
\<close>

theorem replaceable_newest_wins_witness:
  "identity_key ev_old = Some (10002, ''alice'', [])
   \<and> identity_key ev_new = Some (10002, ''alice'', [])
   \<and> supersedes ev_new ev_old
   \<and> repository_publish (repository_publish empty_repository ev_old) ev_new =
        empty_repository\<lparr>stored := [ev_new]\<rparr>
   \<and> repository_publish (repository_publish empty_repository ev_new) ev_old =
        empty_repository\<lparr>stored := [ev_new]\<rparr>
   \<and> ev_new \<in> set (repository_query (empty_repository\<lparr>stored := [ev_new]\<rparr>)
                      [filter_relay_lists])
   \<and> supersedes ev_tie ev_old
   \<and> repository_publish (repository_publish empty_repository ev_old) ev_tie =
        empty_repository\<lparr>stored := [ev_tie]\<rparr>
   \<and> repository_publish (repository_publish empty_repository ev_tie) ev_old =
        empty_repository\<lparr>stored := [ev_tie]\<rparr>"
proof -
  have k1: "identity_key ev_old = Some (10002, ''alice'', [])"
    by (simp add: identity_key_def ev_old_def isReplaceableKind_def)
  have k2: "identity_key ev_new = Some (10002, ''alice'', [])"
    by (simp add: identity_key_def ev_new_def isReplaceableKind_def)
  have k3: "identity_key ev_tie = Some (10002, ''alice'', [])"
    by (simp add: identity_key_def ev_tie_def isReplaceableKind_def)
  have n: "supersedes ev_new ev_old"
    by (simp add: supersedes_def ev_new_def ev_old_def)
  have t: "supersedes ev_tie ev_old"
    by (simp add: supersedes_def ev_tie_def ev_old_def)
  have i: "ev_id ev_old \<noteq> ev_id ev_new" "ev_id ev_old \<noteq> ev_id ev_tie"
    by (simp_all add: ev_old_def ev_new_def ev_tie_def)
  have f: "\<forall>x \<in> set (stored empty_repository).
             identity_key x \<noteq> Some (10002, ''alice'', []) \<and> ev_id x \<noteq> ev_id ev_old
             \<and> ev_id x \<noteq> ev_id ev_new"
    "\<forall>x \<in> set (stored empty_repository).
             identity_key x \<noteq> Some (10002, ''alice'', []) \<and> ev_id x \<noteq> ev_id ev_old
             \<and> ev_id x \<noteq> ev_id ev_tie"
    by (simp_all add: empty_repository_def)
  have l: "\<not> isDeleted empty_repository ev_old" "\<not> isDeleted empty_repository ev_new"
    "\<not> isDeleted empty_repository ev_tie" "\<not> isDeletedByAddress empty_repository ev_old"
    by (simp_all add: isDeleted_def isDeletedByAddress_def empty_repository_def)
  have m: "matchFilter filter_relay_lists ev_new \<and> limit filter_relay_lists = None"
    by (simp add: matchFilter_def filter_relay_lists_def empty_filter_def ev_new_def)
  show ?thesis
    using k1 k2 n t m
      replaceable_newest_wins [OF k1 k2 n i(1) f(1) l(1) l(2) l(4), of "[]" filter_relay_lists]
      replaceable_newest_wins [OF k1 k3 t i(2) f(2) l(1) l(3) l(4), of "[]" filter_relay_lists]
    by (simp add: empty_repository_def)
qed

section \<open>Properties of the router\<close>

lemma add_weight_map_fst:
  "map fst (add_weight w m url) =
     (if url \<in> set (map fst m) then map fst m else map fst m @ [url])"
  by (induction m) (auto split: if_splits)

lemma add_weight_keys: "set (map fst (add_weight w m url)) = insert url (set (map fst m))"
  by (simp only: add_weight_map_fst) auto

lemma add_weight_distinct: "distinct (map fst m) \<Longrightarrow> distinct (map fst (add_weight w m url))"
  by (simp only: add_weight_map_fst) auto

lemma add_weight_map_of:
  "map_of (add_weight w m url) u =
     (if u = url then Some (weight_of m url + w) else map_of m u)"
  by (induction m) (auto simp: weight_of_def)

lemma add_weight_weight_of:
  "weight_of (add_weight w m url) u = weight_of m u + (if u = url then w else 0)"
  by (simp add: weight_of_def add_weight_map_of)

lemma foldl_add_weight_keys:
  "set (map fst (foldl (add_weight w) m rs)) = set (map fst m) \<union> set rs"
  by (induction rs arbitrary: m) (simp_all add: add_weight_keys del: set_map)

lemma foldl_add_weight_distinct:
  "distinct (map fst m) \<Longrightarrow> distinct (map fst (foldl (add_weight w) m rs))"
  by (induction rs arbitrary: m) (auto simp: add_weight_distinct)

lemma foldl_add_weight_weight_of:
  "weight_of (foldl (add_weight w) m rs) u = weight_of m u + w * of_nat (count_list rs u)"
  by (induction rs arbitrary: m) (auto simp: add_weight_weight_of algebra_simps)

lemma merge_keys_aux:
  "set (map fst (foldl (\<lambda>m s. foldl (add_weight (weight s)) m (sel_relays s)) m0 sels))
   = set (map fst m0) \<union> (\<Union>s \<in> set sels. set (sel_relays s))"
  by (induction sels arbitrary: m0) (simp_all add: foldl_add_weight_keys Un_assoc del: set_map)

lemma merge_distinct_aux:
  "distinct (map fst m0) \<Longrightarrow>
   distinct (map fst (foldl (\<lambda>m s. foldl (add_weight (weight s)) m (sel_relays s)) m0 sels))"
  by (induction sels arbitrary: m0) (auto simp: foldl_add_weight_distinct)

lemma merge_weight_aux:
  "weight_of (foldl (\<lambda>m s. foldl (add_weight (weight s)) m (sel_relays s)) m0 sels) u
   = weight_of m0 u + total_weight sels u"
  by (induction sels arbitrary: m0) (auto simp: foldl_add_weight_weight_of total_weight_def)

lemma merge_selections_keys:
  "set (map fst (merge_selections sels)) = (\<Union>s \<in> set sels. set (sel_relays s))"
  using merge_keys_aux [of "[]" sels] by (simp add: merge_selections_def)

lemma merge_selections_distinct: "distinct (map fst (merge_selections sels))"
  using merge_distinct_aux [of "[]" sels] by (simp add: merge_selections_def)

lemma merge_selections_weight:
  "(u, w) \<in> set (merge_selections sels) \<Longrightarrow> w = total_weight sels u"
proof -
  assume a: "(u, w) \<in> set (merge_selections sels)"
  then have "map_of (merge_selections sels) u = Some w"
    using merge_selections_distinct [of sels] by simp
  then have "weight_of (merge_selections sels) u = w"
    by (simp add: weight_of_def)
  then show ?thesis
    using merge_weight_aux [of "[]" sels u] by (simp add: merge_selections_def weight_of_def)
qed

lemma rank_relays_set: "set (rank_relays opts m) = fst ` set m"
  by (simp add: rank_relays_def)

lemma rank_relays_distinct: "distinct (map fst m) \<Longrightarrow> distinct (rank_relays opts m)"
  by (simp add: rank_relays_def distinct_map inj_on_def)

lemma rank_relays_sorted:
  "sorted (map (\<lambda>u. (- total_weight sels u, - getRelayQuality opts u))
            (rank_relays opts (merge_selections sels)))"
proof -
  let ?key = "\<lambda>(u, w). (- w, - getRelayQuality opts u)"
  let ?m = "merge_selections sels"
  have "\<forall>x \<in> set (sort_key ?key ?m).
          (- total_weight sels (fst x), - getRelayQuality opts (fst x)) = ?key x"
    using merge_selections_weight [of _ _ sels] by auto
  then have "map (\<lambda>x. (- total_weight sels (fst x), - getRelayQuality opts (fst x)))
               (sort_key ?key ?m) = map ?key (sort_key ?key ?m)"
    by (simp only: map_eq_conv)
  then show ?thesis
    by (simp only: rank_relays_def map_map comp_def sorted_sort_key)
qed

lemma rank_relays_length: "length (rank_relays opts m) = length m"
  by (simp add: rank_relays_def)

lemma getUrls_split:
  "\<exists>fb. getUrls opts policy sels =
           take (getLimit opts) (rank_relays opts (merge_selections sels)) @ fb
        \<and> set fb \<subseteq> set (getFallbackRelays opts)
        \<and> length fb \<le> policy (length (take (getLimit opts)
                                   (rank_relays opts (merge_selections sels)))) (getLimit opts)"
proof -
  let ?primary = "take (getLimit opts) (rank_relays opts (merge_selections sels))"
  let ?fb = "take (min (policy (length ?primary) (getLimit opts))
                      (getLimit opts - length ?primary))
               (filter (\<lambda>u. u \<notin> set ?primary) (uniq (getFallbackRelays opts)))"
  have "getUrls opts policy sels = ?primary @ ?fb"
    by (simp add: getUrls_def Let_def)
  moreover have "set ?fb \<subseteq> set (getFallbackRelays opts)"
  proof -
    have "set ?fb \<subseteq> set (filter (\<lambda>u. u \<notin> set ?primary) (uniq (getFallbackRelays opts)))"
      by (rule set_take_subset)
    also have "\<dots> \<subseteq> set (uniq (getFallbackRelays opts))"
      by (rule filter_is_subset)
    finally show ?thesis
      by (simp only: set_uniq)
  qed
  moreover have "length ?fb \<le> policy (length ?primary) (getLimit opts)"
    by simp
  ultimately show ?thesis
    by blast
qed

lemma getUrls_distinct: "distinct (getUrls opts policy sels)"
proof -
  let ?primary = "take (getLimit opts) (rank_relays opts (merge_selections sels))"
  let ?fb = "take (min (policy (length ?primary) (getLimit opts))
                      (getLimit opts - length ?primary))
               (filter (\<lambda>u. u \<notin> set ?primary) (uniq (getFallbackRelays opts)))"
  have "distinct ?primary"
    by (rule distinct_take) (rule rank_relays_distinct, rule merge_selections_distinct)
  moreover have "distinct ?fb"
    by (rule distinct_take) (simp add: distinct_uniq)
  moreover have "set ?primary \<inter> set ?fb = {}"
  proof -
    have "set ?fb \<subseteq> set (filter (\<lambda>u. u \<notin> set ?primary) (uniq (getFallbackRelays opts)))"
      by (rule set_take_subset)
    then have "\<forall>u \<in> set ?fb. u \<notin> set ?primary"
      by (simp only: set_filter) blast
    then show ?thesis
      by blast
  qed
  ultimately show ?thesis
    by (simp add: getUrls_def Let_def)
qed

lemma getUrls_length: "length (getUrls opts policy sels) \<le> getLimit opts"
proof -
  let ?primary = "take (getLimit opts) (rank_relays opts (merge_selections sels))"
  have "length (getUrls opts policy sels) \<le> length ?primary + (getLimit opts - length ?primary)"
    by (simp add: getUrls_def Let_def)
  moreover have "length ?primary \<le> getLimit opts"
    by simp
  ultimately show ?thesis
    by linarith
qed

lemma getUrls_fills_with_fallback:
  assumes "a \<noteq> b" and "f \<noteq> a" and "f \<noteq> b" and "2 < t"
  shows "length (getUrls \<lparr>getFallbackRelays = [f], getRelayQuality = q, getLimit = 3\<rparr>
            (threshold_policy t) [\<lparr>weight = w, sel_relays = [a, b]\<rparr>]) = 3
         \<and> set (getUrls \<lparr>getFallbackRelays = [f], getRelayQuality = q, getLimit = 3\<rparr>
            (threshold_policy t) [\<lparr>weight = w, sel_relays = [a, b]\<rparr>]) = {a, b, f}"
proof -
  let ?opts = "\<lparr>getFallbackRelays = [f], getRelayQuality = q, getLimit = 3\<rparr>"
  let ?sels = "[\<lparr>weight = w, sel_relays = [a, b]\<rparr>]"
  let ?ranked = "rank_relays ?opts (merge_selections ?sels)"
  have m: "merge_selections ?sels = [(a, w), (b, w)]"
    using assms(1) by (simp add: merge_selections_def)
  have l: "length ?ranked = 2"
    by (simp add: rank_relays_length m)
  have s: "set ?ranked = {a, b}"
    by (simp add: rank_relays_set m)
  have "getUrls ?opts (threshold_policy t) ?sels = ?ranked @ [f]"
    using assms l s by (simp add: getUrls_def Let_def threshold_policy_def)
  then show ?thesis
    using l s by auto
qed

lemma getUrls_eq:
  "getUrls opts policy sels =
     primary_relays opts sels
     @ take (min (policy (length (primary_relays opts sels)) (getLimit opts))
                 (getLimit opts - length (primary_relays opts sels)))
         (spare_fallbacks opts sels)"
  by (simp add: getUrls_def Let_def primary_relays_def spare_fallbacks_def)

lemma getUrls_appends:
  "\<exists>fb. getUrls opts policy sels = primary_relays opts sels @ fb
        \<and> fb = take (length fb) (spare_fallbacks opts sels)
        \<and> length fb =
            min (min (policy (length (primary_relays opts sels)) (getLimit opts))
                     (getLimit opts - length (primary_relays opts sels)))
                (length (spare_fallbacks opts sels))"
proof -
  let ?n = "min (policy (length (primary_relays opts sels)) (getLimit opts))
                (getLimit opts - length (primary_relays opts sels))"
  let ?fb = "take ?n (spare_fallbacks opts sels)"
  have "getUrls opts policy sels = primary_relays opts sels @ ?fb"
    by (rule getUrls_eq)
  moreover have "length ?fb = min ?n (length (spare_fallbacks opts sels))"
    by (simp add: min.commute)
  moreover have "?fb = take (length ?fb) (spare_fallbacks opts sels)"
    by (auto simp: min_def)
  ultimately show ?thesis
    by blast
qed

lemma primary_relays_length: "length (primary_relays opts sels) \<le> getLimit opts"
  by (simp add: primary_relays_def)

lemma getUrls_threshold_fills:
  assumes "primary_relays opts sels = [] \<or> length (primary_relays opts sels) < t"
  shows "getUrls opts (threshold_policy t) sels =
           primary_relays opts sels
           @ take (getLimit opts - length (primary_relays opts sels)) (spare_fallbacks opts sels)
         \<and> length (getUrls opts (threshold_policy t) sels) =
             min (getLimit opts)
               (length (primary_relays opts sels) + length (spare_fallbacks opts sels))"
proof -
  have p: "threshold_policy t (length (primary_relays opts sels)) (getLimit opts) =
             getLimit opts - length (primary_relays opts sels)"
    using assms by (auto simp: threshold_policy_def)
  have e: "getUrls opts (threshold_policy t) sels =
           primary_relays opts sels
           @ take (getLimit opts - length (primary_relays opts sels)) (spare_fallbacks opts sels)"
    by (simp only: getUrls_eq p min.idem)
  have "length (primary_relays opts sels) \<le> getLimit opts"
    by (rule primary_relays_length)
  then have "length (primary_relays opts sels)
             + min (length (spare_fallbacks opts sels))
                 (getLimit opts - length (primary_relays opts sels))
             = min (getLimit opts)
                 (length (primary_relays opts sels) + length (spare_fallbacks opts sels))"
    by linarith
  then have "length (getUrls opts (threshold_policy t) sels) =
             min (getLimit opts)
               (length (primary_relays opts sels) + length (spare_fallbacks opts sels))"
    by (simp only: e length_append length_take)
  with e show ?thesis
    by (rule conjI)
qed

lemma getUrls_threshold_keeps:
  assumes "primary_relays opts sels \<noteq> []" and "t \<le> length (primary_relays opts sels)"
  shows "getUrls opts (threshold_policy t) sels = primary_relays opts sels"
proof -
  have "threshold_policy t (length (primary_relays opts sels)) (getLimit opts) = 0"
    using assms by (simp add: threshold_policy_def)
  then show ?thesis
    by (simp add: getUrls_eq)
qed

text \<open>
  C7. For every scenario: the merged list has one entry for every contributed url,
  with the sum of the weights of its contributions; the ranking holds the same urls,
  descending by combined weight and, on equal weight, by quality; the result is the
  ranking cut at the limit, followed by the first of the fallback relays that it does
  not hold yet, exactly as many as the policy says, the room up to the limit and
  their number allow; it has no duplicates and is never longer than the limit. With
  the threshold policy, a result that is empty or below the threshold is filled with
  those fallback relays up to the limit, and any other result is left as it is. In
  particular, with the fallback relays \<open>[f]\<close>, the limit 3 and one contribution of
  two relays other than \<open>f\<close>, a threshold above 2 gives exactly three urls: the two
  relays and \<open>f\<close>.
\<close>

theorem getUrls_scenario:
  "distinct (map fst (merge_selections sels))
   \<and> set (map fst (merge_selections sels)) = (\<Union>s \<in> set sels. set (sel_relays s))
   \<and> (\<forall>p \<in> set (merge_selections sels). snd p = total_weight sels (fst p))
   \<and> sorted (map (\<lambda>u. (- total_weight sels u, - getRelayQuality opts u))
               (rank_relays opts (merge_selections sels)))
   \<and> set (rank_relays opts (merge_selections sels)) = set (map fst (merge_selections sels))
   \<and> distinct (rank_relays opts (merge_selections sels))
   \<and> (\<exists>fb. getUrls opts policy sels = primary_relays opts sels @ fb
           \<and> fb = take (length fb) (spare_fallbacks opts sels)
           \<and> length fb =
               min (min (policy (length (primary_relays opts sels)) (getLimit opts))
                        (getLimit opts - length (primary_relays opts sels)))
                   (length (spare_fallbacks opts sels)))
   \<and> distinct (getUrls opts policy sels)
   \<and> length (getUrls opts policy sels) \<le> getLimit opts
   \<and> (primary_relays opts sels = [] \<or> length (primary_relays opts sels) < t \<longrightarrow>
        getUrls opts (threshold_policy t) sels =
          primary_relays opts sels
          @ take (getLimit opts - length (primary_relays opts sels)) (spare_fallbacks opts sels)
        \<and> length (getUrls opts (threshold_policy t) sels) =
            min (getLimit opts)
              (length (primary_relays opts sels) + length (spare_fallbacks opts sels)))
   \<and> (primary_relays opts sels \<noteq> [] \<and> t \<le> length (primary_relays opts sels) \<longrightarrow>
        getUrls opts (threshold_policy t) sels = primary_relays opts sels)
   \<and> (a \<noteq> b \<and> f \<noteq> a \<and> f \<noteq> b \<and> 2 < t \<longrightarrow>
        length (getUrls \<lparr>getFallbackRelays = [f], getRelayQuality = q, getLimit = 3\<rparr>
            (threshold_policy t) [\<lparr>weight = w, sel_relays = [a, b]\<rparr>]) = 3
        \<and> set (getUrls \<lparr>getFallbackRelays = [f], getRelayQuality = q, getLimit = 3\<rparr>
            (threshold_policy t) [\<lparr>weight = w, sel_relays = [a, b]\<rparr>]) = {a, b, f})"
proof -
  have f1: "distinct (map fst (merge_selections sels))"
    by (rule merge_selections_distinct)
  have f2: "set (map fst (merge_selections sels)) = (\<Union>s \<in> set sels. set (sel_relays s))"
    by (rule merge_selections_keys)
  have f3: "\<forall>p \<in> set (merge_selections sels). snd p = total_weight sels (fst p)"
    using merge_selections_weight [of _ _ sels] by auto
  have f4: "sorted (map (\<lambda>u. (- total_weight sels u, - getRelayQuality opts u))
               (rank_relays opts (merge_selections sels)))"
    by (rule rank_relays_sorted)
  have f5: "set (rank_relays opts (merge_selections sels)) = set (map fst (merge_selections sels))"
    by (simp add: rank_relays_set)
  have f5': "distinct (rank_relays opts (merge_selections sels))"
    by (rule rank_relays_distinct) (rule merge_selections_distinct)
  have f6: "\<exists>fb. getUrls opts policy sels = primary_relays opts sels @ fb
           \<and> fb = take (length fb) (spare_fallbacks opts sels)
           \<and> length fb =
               min (min (policy (length (primary_relays opts sels)) (getLimit opts))
                        (getLimit opts - length (primary_relays opts sels)))
                   (length (spare_fallbacks opts sels))"
    by (rule getUrls_appends)
  have f7: "distinct (getUrls opts policy sels)"
    by (rule getUrls_distinct)
  have f8: "length (getUrls opts policy sels) \<le> getLimit opts"
    by (rule getUrls_length)
  have f9: "primary_relays opts sels = [] \<or> length (primary_relays opts sels) < t \<longrightarrow>
        getUrls opts (threshold_policy t) sels =
          primary_relays opts sels
          @ take (getLimit opts - length (primary_relays opts sels)) (spare_fallbacks opts sels)
        \<and> length (getUrls opts (threshold_policy t) sels) =
            min (getLimit opts)
              (length (primary_relays opts sels) + length (spare_fallbacks opts sels))"
    using getUrls_threshold_fills [of opts sels t] by blast
  have f10: "primary_relays opts sels \<noteq> [] \<and> t \<le> length (primary_relays opts sels) \<longrightarrow>
        getUrls opts (threshold_policy t) sels = primary_relays opts sels"
    using getUrls_threshold_keeps [of opts sels t] by blast
  have f11: "a \<noteq> b \<and> f \<noteq> a \<and> f \<noteq> b \<and> 2 < t \<longrightarrow>
        length (getUrls \<lparr>getFallbackRelays = [f], getRelayQuality = q, getLimit = 3\<rparr>
            (threshold_policy t) [\<lparr>weight = w, sel_relays = [a, b]\<rparr>]) = 3
        \<and> set (getUrls \<lparr>getFallbackRelays = [f], getRelayQuality = q, getLimit = 3\<rparr>
            (threshold_policy t) [\<lparr>weight = w, sel_relays = [a, b]\<rparr>]) = {a, b, f}"
    using getUrls_fills_with_fallback [of a b f t q w] by blast
  show ?thesis
    by (intro conjI) (rule f1 f2 f3 f4 f5 f5' f6 f7 f8 f9 f10 f11)+
qed

text \<open>
  C7 at a contribution of the relays \<open>a\<close> and \<open>b\<close> with weight 1, where \<open>b\<close> has
  the better quality, the fallback relay \<open>f\<close>, the limit 3 and the threshold 3; and
  at a scenario without contributions, with the fallback relays \<open>f\<close>, \<open>g\<close> and
  \<open>f\<close> again.
\<close>

theorem getUrls_scenario_witness:
  "getUrls demo_router (threshold_policy 3) demo_selections =
     [''wss://b/'', ''wss://a/'', ''wss://f/'']
   \<and> length (getUrls demo_router (threshold_policy 3) demo_selections) = 3
   \<and> ''wss://f/'' \<in> set (getUrls demo_router (threshold_policy 3) demo_selections)
   \<and> merge_selections demo_selections = [(''wss://a/'', 1), (''wss://b/'', 1)]
   \<and> primary_relays demo_router demo_selections = [''wss://b/'', ''wss://a/'']
   \<and> spare_fallbacks demo_router demo_selections = [''wss://f/'']
   \<and> getUrls demo_router (threshold_policy 2) demo_selections = [''wss://b/'', ''wss://a/'']
   \<and> primary_relays demo_router_fg [] = []
   \<and> getUrls demo_router_fg (threshold_policy 3) [] = [''wss://f/'', ''wss://g/'']"
proof -
  have m: "merge_selections demo_selections = [(''wss://a/'', 1), (''wss://b/'', 1)]"
    by (simp add: merge_selections_def demo_selections_def)
  have r: "rank_relays demo_router (merge_selections demo_selections) =
             [''wss://b/'', ''wss://a/'']"
    by (simp add: m rank_relays_def demo_router_def)
  have l: "getLimit demo_router = 3" "getLimit demo_router_fg = 3"
    by (simp_all add: demo_router_def demo_router_fg_def)
  have p: "primary_relays demo_router demo_selections = [''wss://b/'', ''wss://a/'']"
    by (simp add: primary_relays_def r l)
  have s: "spare_fallbacks demo_router demo_selections = [''wss://f/'']"
    by (simp add: spare_fallbacks_def p) (simp add: demo_router_def)
  have p0: "primary_relays demo_router_fg [] = []"
    by (simp add: primary_relays_def merge_selections_def rank_relays_def)
  have s0: "spare_fallbacks demo_router_fg [] = [''wss://f/'', ''wss://g/'']"
    by (simp add: spare_fallbacks_def p0) (simp add: demo_router_fg_def)
  show ?thesis
    using getUrls_scenario [where sels = demo_selections and opts = demo_router
        and policy = "threshold_policy 3" and t = 3 and a = "''wss://a/''"
        and b = "''wss://b/''" and f = "''wss://f/''"
        and q = "\<lambda>u. if u = ''wss://b/'' then 3 / 10 else 1 / 5" and w = 1]
      getUrls_scenario [where sels = demo_selections and opts = demo_router
        and policy = "threshold_policy 2" and t = 2 and a = "''wss://a/''"
        and b = "''wss://a/''" and f = "''wss://f/''"
        and q = "\<lambda>u. if u = ''wss://b/'' then 3 / 10 else 1 / 5" and w = 1]
      getUrls_scenario [where sels = "[]" and opts = demo_router_fg
        and policy = "threshold_policy 3" and t = 3 and a = "''wss://a/''"
        and b = "''wss://a/''" and f = "''wss://f/''"
        and q = "\<lambda>u. if u = ''wss://b/'' then 3 / 10 else 1 / 5" and w = 1]
      m p s p0 s0 l
    by simp
qed

end
